theory Spec2Isabelle
  imports
    Main
    "HOL-Library.Sublist"
    "HOL-Library.Char_ord"
    "HOL-Library.List_Lexorder"
    "HOL-Library.Multiset"
begin

section \<open>Errors and exit codes\<close>

text \<open>
  \<^verbatim>\<open>src/cli.ts\<close> raises two kinds of exception: a \<^verbatim>\<open>BabulusError\<close> constructed with
  a message (the only kind the top-level handler recognises), and everything else: the
  \<^verbatim>\<open>Error\<close> objects thrown by \<^verbatim>\<open>readFileSync\<close>, \<^verbatim>\<open>readdirSync\<close>, \<^verbatim>\<open>JSON.parse\<close> and by
  the external collaborators. Both carry a message.
\<close>

datatype error = BabulusError string | OtherError string

section \<open>POSIX paths: the functions of Node's \<^verbatim>\<open>path\<close> module used by the CLI\<close>

text \<open>
  Strings are character lists. A path is cut into segments at every slash; the empty
  string has the single segment \<open>''''\<close>.
\<close>

fun split_path :: "string \<Rightarrow> string list" where
  "split_path [] = [[]]"
| "split_path (c # cs) =
     (if c = CHR ''/'' then [] # split_path cs
      else (case split_path cs of [] \<Rightarrow> [[c]] | s # ss \<Rightarrow> (c # s) # ss))"

fun join_segs :: "string list \<Rightarrow> string" where
  "join_segs [] = []"
| "join_segs [s] = s"
| "join_segs (s # t # ss) = s @ ''/'' @ join_segs (t # ss)"

text \<open>
  \<^verbatim>\<open>normalizeString(path, allowAboveRoot)\<close>: one step per segment, on the stack of segments
  kept so far (most recent first). Empty and \<^verbatim>\<open>.\<close> segments vanish; \<^verbatim>\<open>..\<close> removes the
  previous segment unless there is none or it is \<^verbatim>\<open>..\<close> itself, in which case it is kept
  only when \<open>allowAboveRoot\<close> holds.
\<close>

fun normalize_step :: "bool \<Rightarrow> string list \<Rightarrow> string \<Rightarrow> string list" where
  "normalize_step allowAboveRoot res seg =
     (if seg = [] \<or> seg = ''.'' then res
      else if seg = ''..'' then
        (case res of
           [] \<Rightarrow> if allowAboveRoot then [''..''] else []
         | lastSeg # rest \<Rightarrow>
             if lastSeg = ''..'' then (if allowAboveRoot then ''..'' # res else res)
             else rest)
      else seg # res)"

definition normalizeString :: "string \<Rightarrow> bool \<Rightarrow> string" where
  "normalizeString path allowAboveRoot =
     join_segs (rev (foldl (normalize_step allowAboveRoot) [] (split_path path)))"

definition path_normalize :: "string \<Rightarrow> string" where
  "path_normalize path =
     (if path = [] then ''.''
      else
        let isAbsolute = (hd path = CHR ''/'');
            trailingSeparator = (last path = CHR ''/'');
            p = normalizeString path (\<not> isAbsolute)
        in if p = [] then
             (if isAbsolute then ''/'' else if trailingSeparator then ''./'' else ''.'')
           else
             (let p' = (if trailingSeparator then p @ ''/'' else p)
              in if isAbsolute then ''/'' @ p' else p'))"

text \<open>\<^verbatim>\<open>path.join(...args)\<close>: the non-empty arguments joined by slashes, then normalised.\<close>

definition join :: "string list \<Rightarrow> string" where
  "join args =
     (let parts = filter (\<lambda>a. a \<noteq> []) args
      in if parts = [] then ''.'' else path_normalize (join_segs parts))"

text \<open>
  \<^verbatim>\<open>path.resolve(cwd, arg)\<close> where \<open>cwd\<close> is \<^verbatim>\<open>process.cwd()\<close>, an absolute path: an
  absolute \<open>arg\<close> stands alone, any other is appended to \<open>cwd\<close>; the result is normalised,
  absolute and has no trailing slash.
\<close>

definition resolve :: "string \<Rightarrow> string \<Rightarrow> string" where
  "resolve cwd arg =
     (let resolvedPath =
            (if arg = [] then cwd @ ''/''
             else if hd arg = CHR ''/'' then arg @ ''/''
             else cwd @ ''/'' @ arg @ ''/'')
      in ''/'' @ normalizeString resolvedPath False)"

text \<open>
  \<^verbatim>\<open>path.dirname(path)\<close>: scanning from the end down to index 1, trailing slashes are
  skipped, then the last segment; the slash found there ends the result.
\<close>

definition dirname :: "string \<Rightarrow> string" where
  "dirname path =
     (if path = [] then ''.''
      else
        let hasRoot = (hd path = CHR ''/'');
            r = dropWhile (\<lambda>c. c \<noteq> CHR ''/'')
                  (dropWhile (\<lambda>c. c = CHR ''/'') (rev (tl path)));
            endIdx = length r
        in if r = [] then (if hasRoot then ''/'' else ''.'')
           else if hasRoot \<and> endIdx = 1 then ''//''
           else take endIdx path)"

definition sep :: string where
  "sep = ''/''"

text \<open>\<^verbatim>\<open>String.prototype.startsWith\<close> and \<^verbatim>\<open>endsWith\<close>.\<close>

definition startsWith :: "string \<Rightarrow> string \<Rightarrow> bool" where
  "startsWith s p = prefix p s"

definition endsWith :: "string \<Rightarrow> string \<Rightarrow> bool" where
  "endsWith s p = suffix p s"

section \<open>The file system\<close>

text \<open>
  A file system is the tree below \<^verbatim>\<open>/\<close>. A directory lists its entries in the order
  \<^verbatim>\<open>readdirSync\<close> reports them. \<open>Special\<close> stands for whatever is neither a regular file
  nor a directory (a socket, say): \<^verbatim>\<open>isFile()\<close> and \<^verbatim>\<open>isDirectory()\<close> are both false for
  it and it cannot be read. Symbolic links are not modelled.
\<close>

datatype node = File string | Dir "(string \<times> node) list" | Special

type_synonym dirents = "(string \<times> node) list"

fun lookup_segs :: "node \<Rightarrow> string list \<Rightarrow> node option" where
  "lookup_segs n [] = Some n"
| "lookup_segs (Dir es) (s # ss) =
     (case map_of es s of None \<Rightarrow> None | Some n \<Rightarrow> lookup_segs n ss)"
| "lookup_segs (File c) (s # ss) = None"
| "lookup_segs Special (s # ss) = None"

definition lookup :: "node \<Rightarrow> string \<Rightarrow> node option" where
  "lookup fs path = lookup_segs fs (filter (\<lambda>s. s \<noteq> []) (split_path path))"

definition existsSync :: "node \<Rightarrow> string \<Rightarrow> bool" where
  "existsSync fs path = (lookup fs path \<noteq> None)"

text \<open>
  A system call on a path that leads nowhere fails with \<^verbatim>\<open>ENOENT\<close>, unless the path runs
  through something that is not a directory, which gives \<^verbatim>\<open>ENOTDIR\<close>. Node's message names
  the system call and the path in single quotes.
\<close>

fun through_file :: "node \<Rightarrow> string list \<Rightarrow> bool" where
  "through_file n [] = False"
| "through_file (Dir es) (s # ss) =
     (case map_of es s of None \<Rightarrow> False | Some n \<Rightarrow> through_file n ss)"
| "through_file (File c) (s # ss) = True"
| "through_file Special (s # ss) = True"

definition quoted :: "string \<Rightarrow> string" where
  "quoted s = [CHR 0x27] @ s @ [CHR 0x27]"

definition missing_error :: "node \<Rightarrow> string \<Rightarrow> string \<Rightarrow> error" where
  "missing_error fs syscall path =
     OtherError
       ((if through_file fs (filter (\<lambda>s. s \<noteq> []) (split_path path))
         then ''ENOTDIR: not a directory'' else ''ENOENT: no such file or directory'')
        @ '', '' @ syscall @ '' '' @ quoted path)"

text \<open>\<^verbatim>\<open>statSync(path).isFile()\<close>; \<^verbatim>\<open>statSync\<close> throws when nothing is there.\<close>

definition statSync_isFile :: "node \<Rightarrow> string \<Rightarrow> error + bool" where
  "statSync_isFile fs path =
     (case lookup fs path of
        None \<Rightarrow> Inl (missing_error fs ''stat'' path)
      | Some (File c) \<Rightarrow> Inr True
      | Some _ \<Rightarrow> Inr False)"

definition readdirSync :: "node \<Rightarrow> string \<Rightarrow> error + dirents" where
  "readdirSync fs path =
     (case lookup fs path of
        None \<Rightarrow> Inl (missing_error fs ''scandir'' path)
      | Some (Dir es) \<Rightarrow> Inr es
      | Some _ \<Rightarrow> Inl (OtherError (''ENOTDIR: not a directory, scandir '' @ quoted path)))"

definition readFileSync :: "node \<Rightarrow> string \<Rightarrow> error + string" where
  "readFileSync fs path =
     (case lookup fs path of
        None \<Rightarrow> Inl (missing_error fs ''open'' path)
      | Some (File c) \<Rightarrow> Inr c
      | Some (Dir es) \<Rightarrow> Inl (OtherError ''EISDIR: illegal operation on a directory, read'')
      | Some Special \<Rightarrow>
          Inl (OtherError (''ENXIO: no such device or address, open '' @ quoted path)))"

section \<open>Source discovery: \<^verbatim>\<open>findDslFiles\<close>, \<^verbatim>\<open>discoverProjectDsls\<close>, \<^verbatim>\<open>resolveDslPaths\<close>\<close>

definition is_dsl_name :: "string \<Rightarrow> bool" where
  "is_dsl_name name = (endsWith name ''.babulus.ts'' \<or> endsWith name ''.babulus.xml'')"

text \<open>
  The \<^verbatim>\<open>for\<close> loop of \<^verbatim>\<open>findDslFiles\<close> over the entries of \<open>root\<close>, with the array \<open>out\<close>
  as accumulator. The recursive call reads the directory \<open>full\<close>, whose entries are the
  ones the tree holds below the entry; its result comes back sorted, as every result of
  \<^verbatim>\<open>findDslFiles\<close> does. \<^verbatim>\<open>Array.prototype.sort()\<close> without a comparator orders strings
  lexicographically by code unit, which is the order of \<open>string\<close> here.
\<close>

fun findDslFiles_loop :: "string \<Rightarrow> bool \<Rightarrow> dirents \<Rightarrow> string list \<Rightarrow> string list" where
  "findDslFiles_loop root recursive [] out = out"
| "findDslFiles_loop root recursive ((name, Dir sub) # entries) out =
     findDslFiles_loop root recursive entries
       (if recursive
        then out @ sort (findDslFiles_loop (join [root, name]) True sub [])
        else out)"
| "findDslFiles_loop root recursive ((name, File c) # entries) out =
     findDslFiles_loop root recursive entries
       (if is_dsl_name name then out @ [join [root, name]] else out)"
| "findDslFiles_loop root recursive ((name, Special) # entries) out =
     findDslFiles_loop root recursive entries out"

definition findDslFiles_entries :: "string \<Rightarrow> bool \<Rightarrow> dirents \<Rightarrow> string list" where
  "findDslFiles_entries root recursive entries = sort (findDslFiles_loop root recursive entries [])"

definition findDslFiles :: "node \<Rightarrow> string \<Rightarrow> bool \<Rightarrow> error + string list" where
  "findDslFiles fs root recursive =
     (case readdirSync fs root of
        Inl e \<Rightarrow> Inl e
      | Inr entries \<Rightarrow> Inr (findDslFiles_entries root recursive entries))"

definition discoverProjectDsls :: "node \<Rightarrow> string \<Rightarrow> error + string list" where
  "discoverProjectDsls fs cwd =
     (let contentDir = join [cwd, ''content'']
      in if existsSync fs contentDir then findDslFiles fs contentDir True
         else findDslFiles fs cwd False)"

text \<open>Decimal rendering of \<^verbatim>\<open>auto.length\<close> inside the template string.\<close>

fun digit_char :: "nat \<Rightarrow> char" where
  "digit_char n = char_of (48 + n)"

fun show_nat :: "nat \<Rightarrow> string" where
  "show_nat n = (if n < 10 then [digit_char n] else show_nat (n div 10) @ [digit_char (n mod 10)])"

declare show_nat.simps [simp del]

definition msg_not_exist :: "string \<Rightarrow> string" where
  "msg_not_exist candidate = ''Path does not exist: '' @ candidate"

definition msg_none_found :: string where
  "msg_none_found =
     ''No .babulus.ts or .babulus.xml files found. Pass a file or directory path, or create one under ./content/''"

definition msg_multiple :: "nat \<Rightarrow> string" where
  "msg_multiple n =
     ''Multiple .babulus.ts/.babulus.xml files found ('' @ show_nat n
       @ ''). Pass a specific file or directory path.''"

text \<open>
  \<open>dslArg\<close> is \<open>None\<close> for \<^verbatim>\<open>undefined\<close>. The test \<^verbatim>\<open>if (dslArg)\<close> is a truthiness test: the
  empty string takes the discovery branch as well.
\<close>

definition truthy :: "string option \<Rightarrow> bool" where
  "truthy v = (case v of None \<Rightarrow> False | Some s \<Rightarrow> s \<noteq> [])"

definition resolveDslPaths :: "node \<Rightarrow> string option \<Rightarrow> string \<Rightarrow> error + string list" where
  "resolveDslPaths fs dslArg cwd =
     (if truthy dslArg then
        (let candidate = resolve cwd (the dslArg)
         in if \<not> existsSync fs candidate then Inl (BabulusError (msg_not_exist candidate))
            else
              (case statSync_isFile fs candidate of
                 Inl e \<Rightarrow> Inl e
               | Inr True \<Rightarrow> Inr [candidate]
               | Inr False \<Rightarrow> findDslFiles fs candidate True))
      else
        (case discoverProjectDsls fs cwd of
           Inl e \<Rightarrow> Inl e
         | Inr auto \<Rightarrow>
             if length auto = 0 then Inl (BabulusError msg_none_found)
             else if length auto > 1 then Inl (BabulusError (msg_multiple (length auto)))
             else Inr [hd auto]))"

section \<open>Compositions, options and collaborators\<close>

text \<open>
  A \<^verbatim>\<open>CompositionSpec\<close> is opaque to the CLI except for its \<^verbatim>\<open>id\<close>. A run is one element of
  the array built by \<^verbatim>\<open>loadCompositions\<close>.
\<close>

record composition =
  comp_id :: string

record run =
  run_path :: string
  run_compositions :: "composition list"

text \<open>
  The options of \<^verbatim>\<open>generate\<close> as commander hands them over: an absent option is
  \<open>None\<close>, \<^verbatim>\<open>--no-usage\<close> makes \<open>usage\<close> false, \<^verbatim>\<open>--seed\<close> has been through \<^verbatim>\<open>Number\<close>
  (integers here; the value is only forwarded).
\<close>

record options =
  scriptOut :: "string option"
  timelineOut :: "string option"
  audioOut :: "string option"
  outDir :: "string option"
  usageOut :: "string option"
  usage :: bool
  env :: "string option"
  environment :: "string option"
  provider :: "string option"
  sfxProvider :: "string option"
  musicProvider :: "string option"
  seed :: "int option"
  fresh :: bool
  watch :: bool
  quiet :: bool
  projectDir :: "string option"

text \<open>
  \<^verbatim>\<open>usagePath\<close> of a generation request is \<^verbatim>\<open>null\<close> (ledger disabled), \<^verbatim>\<open>undefined\<close> (the
  collaborator's default) or a string.
\<close>

datatype usage_path = UsageNull | UsageUndefined | UsagePath string

record 'cfg request =
  req_composition :: composition
  req_dslPath :: string
  req_scriptOut :: string
  req_timelineOut :: string
  req_audioOut :: string
  req_outDir :: string
  req_config :: 'cfg
  req_providerOverride :: "string option"
  req_sfxProviderOverride :: "string option"
  req_musicProviderOverride :: "string option"
  req_seedOverride :: "int option"
  req_fresh :: bool
  req_usagePath :: usage_path
  req_log :: bool
  req_verboseLogs :: bool

text \<open>
  The imported functions the \<^verbatim>\<open>generate\<close> command calls. Their code is outside this
  repository slice, so they are parameters: each returns its value or the error it
  throws; \<^verbatim>\<open>generateComposition\<close> returns \<open>None\<close> when it resolves. \<^verbatim>\<open>findProjectRoot\<close> and
  \<^verbatim>\<open>loadConfig\<close> can be handed \<^verbatim>\<open>dslPaths[0]\<close> of an empty array, which is \<^verbatim>\<open>undefined\<close>.
\<close>

record 'cfg collaborators =
  loadVideoFile :: "string \<Rightarrow> error + composition list"
  loadConfig :: "string option \<Rightarrow> string option \<Rightarrow> error + 'cfg"
  findProjectRoot :: "string option \<Rightarrow> error + string"
  generateComposition :: "'cfg request \<Rightarrow> error option"

section \<open>Default artifact paths: \<^verbatim>\<open>defaultsForComposition\<close>\<close>

record defaults =
  d_scriptOut :: string
  d_timelineOut :: string
  d_audioOut :: string
  d_outDir :: string

text \<open>
  Only the four output options are read from \<open>opts\<close>. \<^verbatim>\<open>typeof opts.x === "string"\<close> holds
  for every string, the empty one included. \<^verbatim>\<open>projectDir ?? findProjectRoot(dslPath)\<close> calls
  the collaborator only when \<open>projectDir\<close> is \<^verbatim>\<open>undefined\<close>.
\<close>

definition defaultsForComposition ::
  "(string option \<Rightarrow> error + string) \<Rightarrow> string \<Rightarrow> string \<Rightarrow> string option \<Rightarrow> options
     \<Rightarrow> error + defaults" where
  "defaultsForComposition findRoot compId dslPath projDir opts =
     (case (case projDir of Some d \<Rightarrow> Inr d | None \<Rightarrow> findRoot (Some dslPath)) of
        Inl e \<Rightarrow> Inl e
      | Inr root \<Rightarrow>
          Inr \<lparr> d_scriptOut =
                  (case scriptOut opts of
                     Some s \<Rightarrow> s
                   | None \<Rightarrow> join [root, ''src/videos/'' @ compId @ ''/'' @ compId @ ''.script.json'']),
                d_timelineOut =
                  (case timelineOut opts of
                     Some s \<Rightarrow> s
                   | None \<Rightarrow> join [root, ''src/videos/'' @ compId @ ''/'' @ compId @ ''.timeline.json'']),
                d_audioOut =
                  (case audioOut opts of
                     Some s \<Rightarrow> s
                   | None \<Rightarrow> join [root, ''public/videoml/'' @ compId @ ''.wav'']),
                d_outDir =
                  (case outDir opts of
                     Some s \<Rightarrow> s
                   | None \<Rightarrow> join [root, ''.videoml/out/'' @ compId]) \<rparr>)"

section \<open>The \<^verbatim>\<open>generate\<close> command\<close>

fun loadCompositions :: "(string \<Rightarrow> error + composition list) \<Rightarrow> string list \<Rightarrow> error + run list" where
  "loadCompositions load [] = Inr []"
| "loadCompositions load (dslPath # rest) =
     (case load dslPath of
        Inl e \<Rightarrow> Inl e
      | Inr comps \<Rightarrow>
          (case loadCompositions load rest of
             Inl e \<Rightarrow> Inl e
           | Inr runs \<Rightarrow> Inr (\<lparr> run_path = dslPath, run_compositions = comps \<rparr> # runs)))"

definition any_override :: "options \<Rightarrow> bool" where
  "any_override opts =
     (truthy (scriptOut opts) \<or> truthy (timelineOut opts) \<or> truthy (audioOut opts)
      \<or> truthy (outDir opts) \<or> truthy (usageOut opts))"

definition msg_watch_overrides :: string where
  "msg_watch_overrides = ''When using --watch with multiple DSLs, omit explicit output overrides.''"

definition msg_single_composition :: string where
  "msg_single_composition = ''Output overrides require a single composition.''"

definition make_request :: "options \<Rightarrow> 'cfg \<Rightarrow> string \<Rightarrow> composition \<Rightarrow> defaults \<Rightarrow> 'cfg request" where
  "make_request opts config dslPath cmp d =
     \<lparr> req_composition = cmp,
       req_dslPath = dslPath,
       req_scriptOut = d_scriptOut d,
       req_timelineOut = d_timelineOut d,
       req_audioOut = d_audioOut d,
       req_outDir = d_outDir d,
       req_config = config,
       req_providerOverride = provider opts,
       req_sfxProviderOverride = sfxProvider opts,
       req_musicProviderOverride = musicProvider opts,
       req_seedOverride = seed opts,
       req_fresh = fresh opts,
       req_usagePath =
         (if \<not> usage opts then UsageNull
          else (case usageOut opts of None \<Rightarrow> UsageUndefined | Some u \<Rightarrow> UsagePath u)),
       req_log = (\<not> quiet opts),
       req_verboseLogs = (\<not> quiet opts) \<rparr>"

text \<open>
  \<^verbatim>\<open>runOnce\<close>: the inner loop over the compositions of one run, then the outer loop over
  the runs. The result is the list of \<^verbatim>\<open>generateComposition\<close> calls made, in order, and
  the error that ended the batch, if any: the first exception leaves both loops.
\<close>

fun runOnce_comps ::
  "'cfg collaborators \<Rightarrow> string option \<Rightarrow> options \<Rightarrow> 'cfg \<Rightarrow> string \<Rightarrow> composition list
     \<Rightarrow> 'cfg request list \<times> error option" where
  "runOnce_comps collab projDir opts config dslPath [] = ([], None)"
| "runOnce_comps collab projDir opts config dslPath (cmp # comps) =
     (case defaultsForComposition (findProjectRoot collab) (comp_id cmp) dslPath projDir opts of
        Inl e \<Rightarrow> ([], Some e)
      | Inr d \<Rightarrow>
          (let req = make_request opts config dslPath cmp d
           in case generateComposition collab req of
                Some e \<Rightarrow> ([req], Some e)
              | None \<Rightarrow>
                  (case runOnce_comps collab projDir opts config dslPath comps of
                     (calls, r) \<Rightarrow> (req # calls, r))))"

fun runOnce ::
  "'cfg collaborators \<Rightarrow> string option \<Rightarrow> options \<Rightarrow> 'cfg \<Rightarrow> run list \<Rightarrow> string list option
     \<Rightarrow> 'cfg request list \<times> error option" where
  "runOnce collab projDir opts config [] dslSubset = ([], None)"
| "runOnce collab projDir opts config (r # runs) dslSubset =
     (if (case dslSubset of None \<Rightarrow> False | Some paths \<Rightarrow> run_path r \<notin> set paths)
      then runOnce collab projDir opts config runs dslSubset
      else
        (case runOnce_comps collab projDir opts config (run_path r) (run_compositions r) of
           (calls, Some e) \<Rightarrow> (calls, Some e)
         | (calls, None) \<Rightarrow>
             (case runOnce collab projDir opts config runs dslSubset of
                (calls', res) \<Rightarrow> (calls @ calls', res))))"

definition findConfigPathForWatch ::
  "(string option \<Rightarrow> error + string) \<Rightarrow> node \<Rightarrow> string option \<Rightarrow> string option \<Rightarrow> string option" where
  "findConfigPathForWatch findRoot fs projDir dslPath =
     (case (case projDir of Some d \<Rightarrow> Inr d | None \<Rightarrow> findRoot dslPath) of
        Inl e \<Rightarrow> None
      | Inr root \<Rightarrow>
          (let videoml = join [root, ''.videoml'', ''config.yml'']
           in if existsSync fs videoml then Some videoml
              else
                (let babulus = join [root, ''.babulus'', ''config.yml'']
                 in if existsSync fs babulus then Some babulus else None)))"

text \<open>\<^verbatim>\<open>Array.from(new Set(xs))\<close>: duplicates dropped, first occurrences kept in order.\<close>

fun uniq :: "'a list \<Rightarrow> 'a list" where
  "uniq [] = []"
| "uniq (x # xs) = x # uniq (filter (\<lambda>y. y \<noteq> x) xs)"

text \<open>
  What the \<^verbatim>\<open>generate\<close> action has in scope when it installs the watcher: these are the
  variables the event handler and \<^verbatim>\<open>runOnce\<close> close over.
\<close>

record 'cfg session =
  ses_cwd :: string
  ses_projectDir :: "string option"
  ses_opts :: options
  ses_config :: 'cfg
  ses_runs :: "run list"
  ses_dslPaths :: "string list"
  ses_configPath :: "string option"
  ses_dslDirs :: "string list"
  ses_watchDirs :: "string list"

datatype 'cfg finish = Finished | Watching "'cfg session"

record 'cfg outcome =
  out_env :: "string option"
  out_calls :: "'cfg request list"
  out_result :: "error + 'cfg finish"

definition first :: "'a list \<Rightarrow> 'a option" where
  "first xs = (case xs of [] \<Rightarrow> None | x # _ \<Rightarrow> Some x)"

text \<open>
  The action of \<^verbatim>\<open>generate\<close>. \<open>out_env\<close> is the value assigned to \<^verbatim>\<open>process.env.VIDEOML_ENV\<close>,
  if any; \<open>out_calls\<close> are the \<^verbatim>\<open>generateComposition\<close> calls made before the action returns
  or throws. In watch mode nothing is generated before the first change event.
\<close>

definition generate_action ::
  "'cfg collaborators \<Rightarrow> node \<Rightarrow> string \<Rightarrow> string option \<Rightarrow> options \<Rightarrow> 'cfg outcome" where
  "generate_action collab fs cwd dslArg opts =
     (let envArg = (case env opts of Some e \<Rightarrow> Some e | None \<Rightarrow> environment opts);
          envSet = (if truthy envArg then envArg else None);
          projDir = (if truthy (projectDir opts) then Some (resolve cwd (the (projectDir opts)))
                     else None);
          fail = (\<lambda>e. \<lparr> out_env = envSet, out_calls = [], out_result = Inl e \<rparr>)
      in case resolveDslPaths fs dslArg cwd of
           Inl e \<Rightarrow> fail e
         | Inr dslPaths \<Rightarrow>
             if watch opts \<and> any_override opts \<and> length dslPaths \<noteq> 1
             then fail (BabulusError msg_watch_overrides)
             else
               (case loadCompositions (loadVideoFile collab) dslPaths of
                  Inl e \<Rightarrow> fail e
                | Inr runs \<Rightarrow>
                    (let totalComps = foldl (\<lambda>sum r. sum + length (run_compositions r)) 0 runs
                     in if any_override opts \<and> totalComps \<noteq> 1
                        then fail (BabulusError msg_single_composition)
                        else
                          (case loadConfig collab projDir (first dslPaths) of
                             Inl e \<Rightarrow> fail e
                           | Inr config \<Rightarrow>
                               if \<not> watch opts then
                                 (case runOnce collab projDir opts config runs None of
                                    (calls, res) \<Rightarrow>
                                      \<lparr> out_env = envSet, out_calls = calls,
                                        out_result =
                                          (case res of Some e \<Rightarrow> Inl e | None \<Rightarrow> Inr Finished) \<rparr>)
                               else
                                 (let configPath =
                                        findConfigPathForWatch (findProjectRoot collab) fs projDir
                                          (first dslPaths);
                                      dslDirs = uniq (map dirname dslPaths);
                                      watchDirs =
                                        (case configPath of
                                           None \<Rightarrow> dslDirs
                                         | Some c \<Rightarrow> dslDirs @ [dirname c])
                                  in \<lparr> out_env = envSet, out_calls = [],
                                       out_result =
                                         Inr (Watching
                                           \<lparr> ses_cwd = cwd, ses_projectDir = projDir,
                                             ses_opts = opts, ses_config = config,
                                             ses_runs = runs, ses_dslPaths = dslPaths,
                                             ses_configPath = configPath,
                                             ses_dslDirs = dslDirs,
                                             ses_watchDirs = watchDirs \<rparr>) \<rparr>)))))"

section \<open>Watch mode: the handler of \<^verbatim>\<open>watcher.on("all", ...)\<close>\<close>

text \<open>
  What one invocation of the handler does with a changed path: either it returns without
  a rebuild, or it prints some lines and calls \<^verbatim>\<open>runOnce\<close> with a scope (\<open>None\<close> for the call
  without argument, which regenerates every run).
\<close>

datatype reaction = NoRebuild | Rebuild "string list" "string list option"

definition newline :: string where
  "newline = [CHR 0x0A]"

definition msg_waiting :: string where
  "msg_waiting = newline @ ''Waiting for changes... (Ctrl+C to stop)'' @ newline"

definition watch_handler :: "'cfg session \<Rightarrow> string \<Rightarrow> reaction" where
  "watch_handler ses changedPath =
     (let cwd = ses_cwd ses;
          absChanged = resolve cwd changedPath;
          rel = (if startsWith absChanged cwd then drop (length cwd + 1) absChanged
                 else absChanged)
      in if \<not> endsWith absChanged ''.ts'' \<and> \<not> endsWith absChanged ''.xml''
            \<and> \<not> endsWith absChanged ''.yml'' \<and> \<not> endsWith absChanged ''.yaml''
         then NoRebuild
         else if truthy (ses_configPath ses) \<and> Some absChanged = ses_configPath ses
         then Rebuild [newline @ ''CHANGE DETECTED (Config): '' @ rel,
                       ''Regenerating all compositions...''] None
         else
           (let dslMatch = find (\<lambda>p. p = absChanged) (ses_dslPaths ses)
            in if truthy dslMatch
               then Rebuild [newline @ ''CHANGE DETECTED (DSL): '' @ rel] (Some [the dslMatch])
               else
                 (let isInDslDir = list_ex (\<lambda>dir. startsWith absChanged (dir @ sep)) (ses_dslDirs ses)
                  in if isInDslDir \<and> (endsWith absChanged ''.ts'' \<or> endsWith absChanged ''.xml'')
                     then Rebuild [newline @ ''CHANGE DETECTED (Shared): '' @ rel,
                                   ''Shared file changed; regenerating all compositions...''] None
                     else NoRebuild)))"

text \<open>
  The handler is an \<^verbatim>\<open>async\<close> function and the watcher calls it once per event, whenever the
  event is delivered. Its body runs at once up to the first \<^verbatim>\<open>await\<close> that has to wait:
  \<^verbatim>\<open>runOnce\<close> is entered and its first \<^verbatim>\<open>generateComposition\<close> call is made before the handler
  suspends. A suspended handler continues when its pending call settles. The state of a
  watching process is therefore the list of rebuilds in flight, each with the calls it has
  still to make (the first of them pending) and the error that will end it, if any; the
  state also records every \<^verbatim>\<open>generateComposition\<close> call in the order it was started and the
  lines the handler has printed. An exception inside \<^verbatim>\<open>runOnce\<close> rejects the promise of the
  handler, which nothing catches: Node ends the process with exit code 1, and then no
  further input is handled.
\<close>

record 'cfg watching =
  w_inflight :: "('cfg request list \<times> error option) list"
  w_started :: "'cfg request list"
  w_stderr :: "string list"
  w_exit :: "nat option"

datatype watch_input = Change string | Settled nat

definition watch_init :: "'cfg watching" where
  "watch_init = \<lparr> w_inflight = [], w_started = [], w_stderr = [], w_exit = None \<rparr>"

definition watch_step ::
  "'cfg collaborators \<Rightarrow> 'cfg session \<Rightarrow> 'cfg watching \<Rightarrow> watch_input \<Rightarrow> 'cfg watching" where
  "watch_step collab ses st inp =
     (if w_exit st \<noteq> None then st
      else
        (case inp of
           Change changedPath \<Rightarrow>
             (case watch_handler ses changedPath of
                NoRebuild \<Rightarrow> st
              | Rebuild msgs scope \<Rightarrow>
                  (case runOnce collab (ses_projectDir ses) (ses_opts ses) (ses_config ses)
                          (ses_runs ses) scope of
                     ([], None) \<Rightarrow> st \<lparr> w_stderr := w_stderr st @ msgs @ [msg_waiting] \<rparr>
                   | ([], Some e) \<Rightarrow>
                       st \<lparr> w_inflight := [], w_stderr := w_stderr st @ msgs, w_exit := Some 1 \<rparr>
                   | (req # calls, res) \<Rightarrow>
                       st \<lparr> w_inflight := w_inflight st @ [(req # calls, res)],
                            w_started := w_started st @ [req],
                            w_stderr := w_stderr st @ msgs \<rparr>))
         | Settled i \<Rightarrow>
             (if i < length (w_inflight st) then
                (case w_inflight st ! i of
                   (req # next # calls, res) \<Rightarrow>
                     st \<lparr> w_inflight := (w_inflight st) [i := (next # calls, res)],
                          w_started := w_started st @ [next] \<rparr>
                 | (calls, None) \<Rightarrow>
                     st \<lparr> w_inflight := take i (w_inflight st) @ drop (Suc i) (w_inflight st),
                          w_stderr := w_stderr st @ [msg_waiting] \<rparr>
                 | (calls, Some e) \<Rightarrow> st \<lparr> w_inflight := [], w_exit := Some 1 \<rparr>)
              else st)))"

definition watch_run ::
  "'cfg collaborators \<Rightarrow> 'cfg session \<Rightarrow> watch_input list \<Rightarrow> 'cfg watching" where
  "watch_run collab ses inputs = foldl (watch_step collab ses) watch_init inputs"

section \<open>The \<^verbatim>\<open>render\<close> command and the top-level handler\<close>

text \<open>
  The options of \<^verbatim>\<open>render\<close>. \<^verbatim>\<open>--script\<close>, \<^verbatim>\<open>--frames\<close> and \<^verbatim>\<open>--out\<close> are required, so
  commander never runs the action without them. Options with a parser arrive as numbers
  (type \<open>'n\<close>), the others as the strings typed; \<^verbatim>\<open>Number\<close> is a parameter.
\<close>

record 'n render_options =
  r_script :: string
  r_frames :: string
  r_out :: string
  r_timeline :: "string option"
  r_audio :: "string option"
  r_title :: "string option"
  r_subtitle :: "string option"
  r_start :: "'n option"
  r_end :: "string option"
  r_pattern :: string
  r_scale :: "'n option"
  r_workers :: "'n option"
  r_browserBundle :: "string option"
  r_ffmpegArg :: "string list"
  r_fps :: "string option"
  r_width :: "string option"
  r_height :: "string option"
  r_duration :: "string option"
  r_debugLayout :: bool
  r_clean :: bool
  r_ffmpeg :: string

record ('n, 'j) render_request =
  rr_script :: 'j
  rr_timeline :: "'j option"
  rr_title :: "string option"
  rr_subtitle :: "string option"
  rr_debugLayout :: bool
  rr_framesDir :: string
  rr_outputPath :: string
  rr_audioPath :: "string option"
  rr_framePattern :: string
  rr_startFrame :: "'n option"
  rr_endFrame :: "'n option"
  rr_deviceScaleFactor :: "'n option"
  rr_workers :: "'n option"
  rr_browserBundlePath :: "string option"
  rr_ffmpegPath :: string
  rr_ffmpegArgs :: "string list"
  rr_fps :: "'n option"
  rr_width :: "'n option"
  rr_height :: "'n option"
  rr_durationFrames :: "'n option"
  rr_cleanFrames :: bool

text \<open>
  \<^verbatim>\<open>JSON.parse\<close>, \<^verbatim>\<open>Number\<close> and the imported \<^verbatim>\<open>renderVideoFromScript\<close> are parameters.
\<close>

record ('n, 'j) render_env =
  JSON_parse :: "string \<Rightarrow> error + 'j"
  Number :: "string \<Rightarrow> 'n"
  renderVideoFromScript :: "('n, 'j) render_request \<Rightarrow> error option"

record ('n, 'j) render_outcome =
  ro_calls :: "('n, 'j) render_request list"
  ro_stderr :: "string list"
  ro_result :: "error + unit"

definition read_json :: "('n, 'j) render_env \<Rightarrow> node \<Rightarrow> string \<Rightarrow> error + 'j" where
  "read_json renv fs path =
     (case readFileSync fs path of Inl e \<Rightarrow> Inl e | Inr text \<Rightarrow> JSON_parse renv text)"

definition render_action ::
  "('n, 'j) render_env \<Rightarrow> node \<Rightarrow> string \<Rightarrow> 'n render_options \<Rightarrow> ('n, 'j) render_outcome" where
  "render_action renv fs cwd opts =
     (let scriptPath = resolve cwd (r_script opts);
          framesDir = resolve cwd (r_frames opts);
          outputPath = resolve cwd (r_out opts);
          audioPath = (if truthy (r_audio opts) then Some (resolve cwd (the (r_audio opts)))
                       else None);
          timelinePath = (if truthy (r_timeline opts)
                          then Some (resolve cwd (the (r_timeline opts))) else None);
          fail = (\<lambda>e. \<lparr> ro_calls = [], ro_stderr = [], ro_result = Inl e \<rparr>)
      in case read_json renv fs scriptPath of
           Inl e \<Rightarrow> fail e
         | Inr script \<Rightarrow>
             (case (case timelinePath of
                      None \<Rightarrow> Inr None
                    | Some t \<Rightarrow>
                        (case read_json renv fs t of Inl e \<Rightarrow> Inl e | Inr t' \<Rightarrow> Inr (Some t'))) of
                Inl e \<Rightarrow> fail e
              | Inr timeline \<Rightarrow>
                  (let req =
                         \<lparr> rr_script = script,
                           rr_timeline = timeline,
                           rr_title = r_title opts,
                           rr_subtitle = r_subtitle opts,
                           rr_debugLayout = r_debugLayout opts,
                           rr_framesDir = framesDir,
                           rr_outputPath = outputPath,
                           rr_audioPath = audioPath,
                           rr_framePattern = r_pattern opts,
                           rr_startFrame = r_start opts,
                           rr_endFrame = map_option (Number renv) (r_end opts),
                           rr_deviceScaleFactor = r_scale opts,
                           rr_workers = r_workers opts,
                           rr_browserBundlePath =
                             (if truthy (r_browserBundle opts)
                              then Some (resolve cwd (the (r_browserBundle opts))) else None),
                           rr_ffmpegPath = r_ffmpeg opts,
                           rr_ffmpegArgs = r_ffmpegArg opts,
                           rr_fps = map_option (Number renv) (r_fps opts),
                           rr_width = map_option (Number renv) (r_width opts),
                           rr_height = map_option (Number renv) (r_height opts),
                           rr_durationFrames = map_option (Number renv) (r_duration opts),
                           rr_cleanFrames = r_clean opts \<rparr>
                   in case renderVideoFromScript renv req of
                        Some e \<Rightarrow> \<lparr> ro_calls = [req], ro_stderr = [], ro_result = Inl e \<rparr>
                      | None \<Rightarrow>
                          \<lparr> ro_calls = [req], ro_stderr = [''write: '' @ outputPath],
                            ro_result = Inr () \<rparr>)))"

text \<open>
  The handler attached to \<^verbatim>\<open>program.parseAsync(process.argv)\<close>: what it prints and the exit
  code. For a \<^verbatim>\<open>BabulusError\<close> it prints the message alone; for anything else it prints
  the error object, which \<^verbatim>\<open>console.error\<close> renders with its stack trace.
\<close>

datatype report = MessageOnly string | ErrorObject error

definition parseAsync_catch :: "error \<Rightarrow> report \<times> nat" where
  "parseAsync_catch err =
     (case err of
        BabulusError message \<Rightarrow> (MessageOnly message, 2)
      | OtherError message \<Rightarrow> (ErrorObject err, 1))"

definition render_command ::
  "('n, 'j) render_env \<Rightarrow> node \<Rightarrow> string \<Rightarrow> 'n render_options
     \<Rightarrow> ('n, 'j) render_request list \<times> (report \<times> nat) option" where
  "render_command renv fs cwd opts =
     (let outcome = render_action renv fs cwd opts
      in (ro_calls outcome,
          (case ro_result outcome of Inl e \<Rightarrow> Some (parseAsync_catch e) | Inr u \<Rightarrow> None)))"

section \<open>Notions used to state the properties\<close>

text \<open>
  A directory entry name, or any ordinary path segment: not empty, not \<^verbatim>\<open>.\<close> or \<^verbatim>\<open>..\<close>, and
  without a slash. A normalised absolute path is \<open>abs_path segs\<close> for a list of such
  segments; \<open>abs_path []\<close> is the root \<^verbatim>\<open>/\<close>.
\<close>

definition proper_seg :: "string \<Rightarrow> bool" where
  "proper_seg s = (s \<noteq> [] \<and> s \<noteq> ''.'' \<and> s \<noteq> ''..'' \<and> CHR ''/'' \<notin> set s)"

definition abs_path :: "string list \<Rightarrow> string" where
  "abs_path segs = ''/'' @ join_segs segs"

text \<open>
  A well-formed directory listing: proper names, no name twice, and the same below every
  subdirectory.
\<close>

fun wf_dirents :: "dirents \<Rightarrow> bool" where
  "wf_dirents [] = True"
| "wf_dirents ((name, Dir sub) # entries) =
     (proper_seg name \<and> name \<notin> fst ` set entries \<and> wf_dirents sub \<and> wf_dirents entries)"
| "wf_dirents ((name, File c) # entries) =
     (proper_seg name \<and> name \<notin> fst ` set entries \<and> wf_dirents entries)"
| "wf_dirents ((name, Special) # entries) =
     (proper_seg name \<and> name \<notin> fst ` set entries \<and> wf_dirents entries)"

text \<open>
  The regular files of a directory tree, each as the list of segments leading to it from
  the root: those directly in the directory and, when \<open>recursive\<close>, those in
  subdirectories at any depth. The matching ones are those whose own name ends in
  \<^verbatim>\<open>.babulus.ts\<close> or \<^verbatim>\<open>.babulus.xml\<close>.
\<close>

fun tree_files :: "bool \<Rightarrow> string list \<Rightarrow> dirents \<Rightarrow> string list list" where
  "tree_files recursive dir [] = []"
| "tree_files recursive dir ((name, Dir sub) # entries) =
     (if recursive then tree_files True (dir @ [name]) sub else [])
       @ tree_files recursive dir entries"
| "tree_files recursive dir ((name, File c) # entries) =
     (dir @ [name]) # tree_files recursive dir entries"
| "tree_files recursive dir ((name, Special) # entries) = tree_files recursive dir entries"

definition matching_files :: "bool \<Rightarrow> string list \<Rightarrow> dirents \<Rightarrow> string list list" where
  "matching_files recursive dir entries =
     filter (\<lambda>p. is_dsl_name (last p)) (tree_files recursive dir entries)"

section \<open>Example inputs\<close>

text \<open>A small project: two sources and a note in \<^verbatim>\<open>/p/content\<close>, one more source below.\<close>

definition example_content :: dirents where
  "example_content =
     [(''b.babulus.ts'', File ''b''),
      (''a.babulus.xml'', File ''a''),
      (''notes.txt'', File ''n''),
      (''sub'', Dir [(''z.babulus.ts'', File ''z''), (''readme.md'', File ''r'')]),
      (''d.babulus.ts'', Dir []),
      (''s.babulus.ts'', Special)]"

definition example_fs :: node where
  "example_fs =
     Dir [(''p'',
           Dir [(''content'', Dir example_content),
                (''video.mts'', File ''v''),
                (''scene.yml'', File ''s''),
                (''.videoml'', Dir [(''config.yml'', File ''c'')])])]"

definition example_flat :: dirents where
  "example_flat =
     [(''one.babulus.ts'', File ''1''),
      (''two.babulus.xml'', File ''2''),
      (''deep'', Dir [(''three.babulus.ts'', File ''3'')])]"

definition example_flat_fs :: node where
  "example_flat_fs = Dir [(''q'', Dir example_flat)]"

definition default_options :: options where
  "default_options =
     \<lparr> scriptOut = None, timelineOut = None, audioOut = None, outDir = None, usageOut = None,
       usage = True, env = None, environment = None, provider = None, sfxProvider = None,
       musicProvider = None, seed = None, fresh = False, watch = False, quiet = False,
       projectDir = None \<rparr>"

text \<open>
  Collaborators that load two compositions from every source and never fail.
\<close>

definition example_collab :: "unit collaborators" where
  "example_collab =
     \<lparr> loadVideoFile = (\<lambda>p. Inr [\<lparr> comp_id = ''intro'' \<rparr>, \<lparr> comp_id = ''outro'' \<rparr>]),
       loadConfig = (\<lambda>projDir dslPath. Inr ()),
       findProjectRoot = (\<lambda>dslPath. Inr ''/p''),
       generateComposition = (\<lambda>req. None) \<rparr>"

text \<open>The total number of compositions of a batch.\<close>

fun total_compositions :: "run list \<Rightarrow> nat" where
  "total_compositions [] = 0"
| "total_compositions (r # runs) = length (run_compositions r) + total_compositions runs"

text \<open>
  The watch session the example project gets for a given argument: the session in the
  outcome of \<^verbatim>\<open>generate --watch\<close> run in \<^verbatim>\<open>/p\<close>.
\<close>

definition session_of :: "'cfg outcome \<Rightarrow> 'cfg session option" where
  "session_of outcome =
     (case out_result outcome of Inr (Watching ses) \<Rightarrow> Some ses | _ \<Rightarrow> None)"

definition example_watch :: "string \<Rightarrow> unit session" where
  "example_watch arg =
     the (session_of (generate_action example_collab example_fs ''/p'' (Some arg)
            (default_options \<lparr> watch := True \<rparr>)))"

text \<open>
  A \<^verbatim>\<open>render\<close> invocation in \<^verbatim>\<open>/p\<close> whose script is not there, with collaborators that
  accept anything.
\<close>

definition example_render_env :: "(string, string) render_env" where
  "example_render_env =
     \<lparr> JSON_parse = (\<lambda>text. Inr text),
       Number = (\<lambda>s. s),
       renderVideoFromScript = (\<lambda>req. None) \<rparr>"

definition example_render_options :: "string render_options" where
  "example_render_options =
     \<lparr> r_script = ''out/missing.script.json'', r_frames = ''frames'', r_out = ''out.mp4'',
       r_timeline = None, r_audio = None, r_title = None, r_subtitle = None,
       r_start = Some ''0'', r_end = None, r_pattern = ''frame-%06d.png'',
       r_scale = Some ''1'', r_workers = None, r_browserBundle = None, r_ffmpegArg = [],
       r_fps = None, r_width = None, r_height = None, r_duration = None,
       r_debugLayout = False, r_clean = True, r_ffmpeg = ''ffmpeg'' \<rparr>"

section \<open>Facts about paths\<close>

lemma split_path_nonempty: "split_path s \<noteq> []"
  by (induction s) (auto split: list.splits)

lemma split_path_no_slash: "CHR ''/'' \<notin> set s \<Longrightarrow> split_path s = [s]"
  by (induction s) auto

lemma split_path_append: "split_path (a @ CHR ''/'' # b) = split_path a @ split_path b"
proof (induction a)
  case Nil
  show ?case by simp
next
  case (Cons c a)
  show ?case
  proof (cases "split_path a")
    case Nil
    then show ?thesis using split_path_nonempty by blast
  next
    case (Cons s ss)
    with Cons.IH show ?thesis by simp
  qed
qed

lemma split_join_segs:
  "segs \<noteq> [] \<Longrightarrow> \<forall>s\<in>set segs. CHR ''/'' \<notin> set s \<Longrightarrow> split_path (join_segs segs) = segs"
proof (induction segs rule: join_segs.induct)
  case 1
  then show ?case by simp
next
  case (2 s)
  then show ?case by (simp add: split_path_no_slash)
next
  case (3 s t ss)
  have "split_path (s @ CHR ''/'' # join_segs (t # ss)) = split_path s @ split_path (join_segs (t # ss))"
    by (rule split_path_append)
  with 3 show ?case by (simp add: split_path_no_slash)
qed

lemma proper_no_slash: "proper_seg s \<Longrightarrow> CHR ''/'' \<notin> set s"
  by (simp add: proper_seg_def)

lemma normalize_step_proper: "proper_seg seg \<Longrightarrow> normalize_step allow res seg = seg # res"
  by (simp add: proper_seg_def)

lemma normalize_step_empty: "normalize_step allow res [] = res"
  by simp

lemma foldl_normalize_proper:
  "\<forall>s\<in>set segs. proper_seg s \<Longrightarrow>
     foldl (normalize_step allow) res segs = rev segs @ res"
  by (induction segs arbitrary: res) (simp_all add: normalize_step_proper del: normalize_step.simps)

lemma split_abs_path:
  "segs \<noteq> [] \<Longrightarrow> \<forall>s\<in>set segs. proper_seg s \<Longrightarrow> split_path (abs_path segs) = [] # segs"
  by (simp add: abs_path_def split_join_segs proper_no_slash)

lemma join_segs_nonempty: "segs \<noteq> [] \<Longrightarrow> \<forall>s\<in>set segs. s \<noteq> [] \<Longrightarrow> join_segs segs \<noteq> []"
  by (induction segs rule: join_segs.induct) auto

lemma last_join_segs:
  "segs \<noteq> [] \<Longrightarrow> \<forall>s\<in>set segs. s \<noteq> [] \<Longrightarrow> last (join_segs segs) = last (last segs)"
proof (induction segs rule: join_segs.induct)
  case (3 s t ss)
  have "join_segs (t # ss) \<noteq> []" using 3 by (intro join_segs_nonempty) auto
  with 3 show ?case by simp
qed auto

lemma abs_path_eq_root:
  assumes "\<forall>s\<in>set b. proper_seg s" "abs_path b = ''/''"
  shows "b = []"
proof (rule ccontr)
  assume "b \<noteq> []"
  moreover have "\<forall>s\<in>set b. s \<noteq> []" using assms(1) by (auto simp: proper_seg_def)
  ultimately have "join_segs b \<noteq> []" by (rule join_segs_nonempty)
  with assms(2) show False by (simp add: abs_path_def)
qed

lemma abs_path_inj:
  assumes "abs_path a = abs_path b" "\<forall>s\<in>set a. proper_seg s" "\<forall>s\<in>set b. proper_seg s"
  shows "a = b"
proof (cases "a = [] \<or> b = []")
  case True
  then show ?thesis
  proof
    assume "a = []"
    then have "abs_path b = ''/''" using assms(1) by (simp add: abs_path_def)
    with assms(3) have "b = []" by (rule abs_path_eq_root)
    with \<open>a = []\<close> show ?thesis by simp
  next
    assume "b = []"
    then have "abs_path a = ''/''" using assms(1) by (simp add: abs_path_def)
    with assms(2) have "a = []" by (rule abs_path_eq_root)
    with \<open>b = []\<close> show ?thesis by simp
  qed
next
  case False
  then have sa: "split_path (abs_path a) = [] # a" and sb: "split_path (abs_path b) = [] # b"
    using assms(2,3) by (simp_all add: split_abs_path)
  have "[] # a = split_path (abs_path a)" by (simp only: sa)
  also have "\<dots> = split_path (abs_path b)" by (simp only: assms(1))
  also have "\<dots> = [] # b" by (simp only: sb)
  finally show ?thesis by simp
qed

lemma foldl_normalize_abs:
  assumes "\<forall>s\<in>set segs. proper_seg s"
  shows "foldl (normalize_step allow) res (split_path (abs_path segs)) = rev segs @ res"
proof (cases "segs = []")
  case True
  then show ?thesis by (simp add: abs_path_def)
next
  case False
  from False assms have "split_path (abs_path segs) = [] # segs" by (rule split_abs_path)
  with assms show ?thesis
    by (simp add: foldl_normalize_proper normalize_step_empty del: normalize_step.simps)
qed

lemma normalizeString_abs:
  "\<forall>s\<in>set segs. proper_seg s \<Longrightarrow> normalizeString (abs_path segs) allow = join_segs segs"
  by (simp add: normalizeString_def foldl_normalize_abs)

lemma normalizeString_slashed:
  assumes "\<forall>s\<in>set segs. proper_seg s" "\<forall>s\<in>set rel. proper_seg s" "rel \<noteq> []"
  shows "normalizeString (abs_path segs @ CHR ''/'' # join_segs rel) allow = join_segs (segs @ rel)"
proof -
  have "split_path (join_segs rel) = rel"
    using assms(2,3) by (simp add: split_join_segs proper_no_slash)
  then have "split_path (abs_path segs @ CHR ''/'' # join_segs rel) = split_path (abs_path segs) @ rel"
    by (simp add: split_path_append)
  then show ?thesis
    using assms(1,2) by (simp add: normalizeString_def foldl_normalize_abs foldl_normalize_proper)
qed

lemma abs_path_nonempty: "abs_path segs \<noteq> []"
  by (simp add: abs_path_def)

lemma hd_abs_path: "hd (abs_path segs) = CHR ''/''"
  by (simp add: abs_path_def)

lemma last_proper: "proper_seg s \<Longrightarrow> last s \<noteq> CHR ''/''"
  unfolding proper_seg_def using last_in_set by metis

lemma join_two: "a \<noteq> [] \<Longrightarrow> b \<noteq> [] \<Longrightarrow> join [a, b] = path_normalize (a @ CHR ''/'' # b)"
  by (simp add: join_def)

lemma path_normalize_abs_rel:
  assumes "hd a = CHR ''/''" "a \<noteq> []" "b \<noteq> []" "last b \<noteq> CHR ''/''"
    "normalizeString (a @ CHR ''/'' # b) False \<noteq> []"
  shows "path_normalize (a @ CHR ''/'' # b) = CHR ''/'' # normalizeString (a @ CHR ''/'' # b) False"
  using assms unfolding path_normalize_def Let_def by simp

lemma join_abs_rel:
  assumes "\<forall>s\<in>set segs. proper_seg s" "\<forall>s\<in>set rel. proper_seg s" "rel \<noteq> []"
  shows "join [abs_path segs, join_segs rel] = abs_path (segs @ rel)"
proof -
  have ne: "\<forall>s\<in>set rel. s \<noteq> []" using assms(2) by (auto simp: proper_seg_def)
  have jne: "join_segs rel \<noteq> []" using assms(3) ne by (rule join_segs_nonempty)
  have "last (join_segs rel) = last (last rel)" using assms(3) ne by (rule last_join_segs)
  moreover have "last rel \<in> set rel" using assms(3) by simp
  then have "proper_seg (last rel)" using assms(2) by blast
  then have "last (last rel) \<noteq> CHR ''/''" by (rule last_proper)
  ultimately have nl: "last (join_segs rel) \<noteq> CHR ''/''" by simp
  let ?j = "abs_path segs @ CHR ''/'' # join_segs rel"
  have n: "normalizeString ?j False = join_segs (segs @ rel)"
    using assms by (rule normalizeString_slashed)
  have "\<forall>s\<in>set (segs @ rel). s \<noteq> []" using assms(1) ne by (auto simp: proper_seg_def)
  moreover have "segs @ rel \<noteq> []" using assms(3) by simp
  ultimately have "join_segs (segs @ rel) \<noteq> []" by (intro join_segs_nonempty)
  with n have nn: "normalizeString ?j False \<noteq> []" by simp
  have "join [abs_path segs, join_segs rel] = path_normalize ?j"
    using abs_path_nonempty jne by (rule join_two)
  also have "\<dots> = CHR ''/'' # normalizeString ?j False"
    using hd_abs_path abs_path_nonempty jne nl nn by (rule path_normalize_abs_rel)
  finally show ?thesis using n by (simp add: abs_path_def)
qed

lemma join_abs_name:
  assumes "\<forall>s\<in>set segs. proper_seg s" "proper_seg name"
  shows "join [abs_path segs, name] = abs_path (segs @ [name])"
  using join_abs_rel [OF assms(1), of "[name]"] assms(2) by simp

section \<open>The directory scan\<close>

lemma findDslFiles_loop_acc:
  "findDslFiles_loop root recursive es (out @ out') = out @ findDslFiles_loop root recursive es out'"
proof (induction es arbitrary: out')
  case Nil
  show ?case by simp
next
  case (Cons e es)
  obtain name nd where e: "e = (name, nd)" by (cases e)
  show ?case
  proof (cases nd)
    case (File c)
    with e Cons.IH [of "out' @ [join [root, name]]"] Cons.IH [of out'] show ?thesis by simp
  next
    case (Dir sub)
    with e Cons.IH [of "out' @ sort (findDslFiles_loop (join [root, name]) True sub [])"]
      Cons.IH [of out'] show ?thesis by (cases recursive) simp_all
  next
    case Special
    with e Cons.IH [of out'] show ?thesis by simp
  qed
qed

lemma findDslFiles_loop_out:
  "findDslFiles_loop root recursive es out = out @ findDslFiles_loop root recursive es []"
  using findDslFiles_loop_acc [of root recursive es out "[]"] by simp

lemma matching_files_Nil: "matching_files recursive dir [] = []"
  by (simp add: matching_files_def)

lemma matching_files_File:
  "matching_files recursive dir ((name, File c) # es) =
     (if is_dsl_name name then [dir @ [name]] else []) @ matching_files recursive dir es"
  by (simp add: matching_files_def)

lemma matching_files_Dir:
  "matching_files recursive dir ((name, Dir sub) # es) =
     (if recursive then matching_files True (dir @ [name]) sub else [])
       @ matching_files recursive dir es"
  by (simp add: matching_files_def)

lemma matching_files_Special:
  "matching_files recursive dir ((name, Special) # es) = matching_files recursive dir es"
  by (simp add: matching_files_def)

lemma findDslFiles_loop_mset:
  "wf_dirents es \<Longrightarrow> \<forall>s\<in>set dir. proper_seg s \<Longrightarrow> root = abs_path dir \<Longrightarrow>
     mset (findDslFiles_loop root recursive es out)
       = mset out + mset (map abs_path (matching_files recursive dir es))"
proof (induction root recursive es out arbitrary: dir rule: findDslFiles_loop.induct)
  case (1 root recursive out)
  show ?case by (simp add: matching_files_Nil)
next
  case (2 root recursive name sub entries out)
  from "2.prems" have wf: "proper_seg name" "wf_dirents sub" "wf_dirents entries" by simp_all
  have j: "join [root, name] = abs_path (dir @ [name])"
    using "2.prems"(2,3) wf(1) by (simp add: join_abs_name)
  have pd: "\<forall>s\<in>set (dir @ [name]). proper_seg s" using "2.prems"(2) wf(1) by simp
  let ?acc = "if recursive then out @ sort (findDslFiles_loop (join [root, name]) True sub []) else out"
  have rest: "mset (findDslFiles_loop root recursive entries ?acc)
       = mset ?acc + mset (map abs_path (matching_files recursive dir entries))"
    using wf(3) "2.prems"(2,3) by (rule "2.IH"(2))
  show ?case
  proof (cases recursive)
    case True
    have "mset (findDslFiles_loop (join [root, name]) True sub [])
            = mset [] + mset (map abs_path (matching_files True (dir @ [name]) sub))"
      using True wf(2) pd j by (rule "2.IH"(1))
    with True rest show ?thesis by (simp add: matching_files_Dir)
  next
    case False
    with rest show ?thesis by (simp add: matching_files_Dir)
  qed
next
  case (3 root recursive name c entries out)
  from "3.prems" have wf: "proper_seg name" "wf_dirents entries" by simp_all
  have j: "join [root, name] = abs_path (dir @ [name])"
    using "3.prems"(2,3) wf(1) by (simp add: join_abs_name)
  let ?acc = "if is_dsl_name name then out @ [join [root, name]] else out"
  have "mset (findDslFiles_loop root recursive entries ?acc)
       = mset ?acc + mset (map abs_path (matching_files recursive dir entries))"
    using wf(2) "3.prems"(2,3) by (rule "3.IH")
  with j show ?case by (simp add: matching_files_File)
next
  case (4 root recursive name entries out)
  from "4.prems" have wf: "wf_dirents entries" by simp
  show ?case using "4.IH" [OF wf "4.prems"(2,3)] by (simp add: matching_files_Special)
qed

lemma tree_files_shape:
  "p \<in> set (tree_files recursive dir es) \<Longrightarrow>
     \<exists>name rest. p = dir @ name # rest \<and> name \<in> fst ` set es"
proof (induction recursive dir es rule: tree_files.induct)
  case (1 recursive dir)
  then show ?case by simp
next
  case (2 recursive dir name sub entries)
  show ?case
  proof (cases "p \<in> set (tree_files recursive dir entries)")
    case True
    then obtain n rest where "p = dir @ n # rest" "n \<in> fst ` set entries"
      using "2.IH"(2) by blast
    then show ?thesis by auto
  next
    case False
    with "2.prems" have r: recursive and "p \<in> set (tree_files True (dir @ [name]) sub)"
      by (auto split: if_splits)
    then obtain n rest where "p = (dir @ [name]) @ n # rest"
      using "2.IH"(1) by blast
    then have "p = dir @ name # (n # rest)" by simp
    then show ?thesis by force
  qed
next
  case (3 recursive dir name c entries)
  show ?case
  proof (cases "p = dir @ [name]")
    case True
    then show ?thesis by force
  next
    case False
    with "3.prems" have "p \<in> set (tree_files recursive dir entries)" by simp
    then obtain n rest where "p = dir @ n # rest" "n \<in> fst ` set entries"
      using "3.IH" by blast
    then show ?thesis by auto
  qed
next
  case (4 recursive dir name entries)
  then obtain n rest where "p = dir @ n # rest" "n \<in> fst ` set entries" by auto
  then show ?case by auto
qed

lemma tree_files_proper:
  "wf_dirents es \<Longrightarrow> \<forall>s\<in>set dir. proper_seg s \<Longrightarrow> p \<in> set (tree_files recursive dir es) \<Longrightarrow>
     \<forall>s\<in>set p. proper_seg s"
proof (induction recursive dir es rule: tree_files.induct)
  case (1 recursive dir)
  then show ?case by simp
next
  case (2 recursive dir name sub entries)
  from "2.prems"(1) have wf: "proper_seg name" "wf_dirents sub" "wf_dirents entries" by simp_all
  show ?case
  proof (cases "p \<in> set (tree_files recursive dir entries)")
    case True
    with wf(3) "2.prems"(2) show ?thesis by (rule "2.IH"(2))
  next
    case False
    with "2.prems"(3) have r: recursive and m: "p \<in> set (tree_files True (dir @ [name]) sub)"
      by (auto split: if_splits)
    have "\<forall>s\<in>set (dir @ [name]). proper_seg s" using "2.prems"(2) wf(1) by simp
    with r wf(2) show ?thesis using m by (rule "2.IH"(1))
  qed
next
  case (3 recursive dir name c entries)
  from "3.prems"(1) have wf: "proper_seg name" "wf_dirents entries" by simp_all
  show ?case
  proof (cases "p = dir @ [name]")
    case True
    with "3.prems"(2) wf(1) show ?thesis by simp
  next
    case False
    with "3.prems"(3) have "p \<in> set (tree_files recursive dir entries)" by simp
    with wf(2) "3.prems"(2) show ?thesis by (rule "3.IH")
  qed
next
  case (4 recursive dir name entries)
  from "4.prems"(1) have wf: "wf_dirents entries" by simp
  from "4.prems"(3) have "p \<in> set (tree_files recursive dir entries)" by simp
  with wf "4.prems"(2) show ?case by (rule "4.IH")
qed

lemma tree_files_distinct: "wf_dirents es \<Longrightarrow> distinct (tree_files recursive dir es)"
proof (induction recursive dir es rule: tree_files.induct)
  case (1 recursive dir)
  show ?case by simp
next
  case (2 recursive dir name sub entries)
  from "2.prems" have wf: "name \<notin> fst ` set entries" "wf_dirents sub" "wf_dirents entries"
    by simp_all
  have d2: "distinct (tree_files recursive dir entries)" using wf(3) by (rule "2.IH"(2))
  show ?case
  proof (cases recursive)
    case True
    have d1: "distinct (tree_files True (dir @ [name]) sub)" using True wf(2) by (rule "2.IH"(1))
    have "set (tree_files True (dir @ [name]) sub) \<inter> set (tree_files recursive dir entries) = {}"
    proof (rule ccontr)
      assume "\<not> ?thesis"
      then obtain p where p1: "p \<in> set (tree_files True (dir @ [name]) sub)"
        and p2: "p \<in> set (tree_files recursive dir entries)" by blast
      from tree_files_shape [OF p1] obtain n r where e1: "p = (dir @ [name]) @ n # r" by auto
      from tree_files_shape [OF p2] obtain n' r' where e2: "p = dir @ n' # r'"
        and m: "n' \<in> fst ` set entries" by auto
      have "(dir @ [name]) @ n # r = dir @ n' # r'" by (simp only: e1 [symmetric] e2 [symmetric])
      then have "name = n'" by simp
      with m wf(1) show False by simp
    qed
    with True d1 d2 show ?thesis by simp
  next
    case False
    with d2 show ?thesis by simp
  qed
next
  case (3 recursive dir name c entries)
  from "3.prems" have wf: "name \<notin> fst ` set entries" "wf_dirents entries" by simp_all
  have d: "distinct (tree_files recursive dir entries)" using wf(2) by (rule "3.IH")
  have "dir @ [name] \<notin> set (tree_files recursive dir entries)"
  proof
    assume a: "dir @ [name] \<in> set (tree_files recursive dir entries)"
    from tree_files_shape [OF a] obtain n' r' where e: "dir @ [name] = dir @ n' # r'"
      and m: "n' \<in> fst ` set entries" by auto
    from e have "name = n'" by simp
    with m wf(1) show False by simp
  qed
  with d show ?case by simp
next
  case (4 recursive dir name entries)
  then show ?case by simp
qed

lemma abs_path_matching_distinct:
  assumes "wf_dirents es" "\<forall>s\<in>set dir. proper_seg s"
  shows "distinct (map abs_path (matching_files recursive dir es))"
proof -
  have "distinct (matching_files recursive dir es)"
    using assms(1) by (simp add: matching_files_def tree_files_distinct)
  moreover have "inj_on abs_path (set (matching_files recursive dir es))"
  proof (rule inj_onI)
    fix a b
    assume a: "a \<in> set (matching_files recursive dir es)"
      and b: "b \<in> set (matching_files recursive dir es)" and eq: "abs_path a = abs_path b"
    from a have "a \<in> set (tree_files recursive dir es)" by (simp add: matching_files_def)
    with assms have pa: "\<forall>s\<in>set a. proper_seg s" by (rule tree_files_proper)
    from b have "b \<in> set (tree_files recursive dir es)" by (simp add: matching_files_def)
    with assms have pb: "\<forall>s\<in>set b. proper_seg s" by (rule tree_files_proper)
    from eq pa pb show "a = b" by (rule abs_path_inj)
  qed
  ultimately show ?thesis by (simp add: distinct_map)
qed

lemma findDslFiles_entries_eq:
  assumes "wf_dirents es" "\<forall>s\<in>set dir. proper_seg s"
  shows "findDslFiles_entries (abs_path dir) recursive es
           = sort (map abs_path (matching_files recursive dir es))"
proof -
  have "mset (findDslFiles_loop (abs_path dir) recursive es [])
          = mset (map abs_path (matching_files recursive dir es))"
    using findDslFiles_loop_mset [OF assms refl, of recursive "[]"] by simp
  then have "mset (sort (map abs_path (matching_files recursive dir es)))
          = mset (findDslFiles_loop (abs_path dir) recursive es [])" by simp
  then have "sort (findDslFiles_loop (abs_path dir) recursive es [])
          = sort (map abs_path (matching_files recursive dir es))"
    by (rule properties_for_sort) simp
  then show ?thesis by (simp add: findDslFiles_entries_def)
qed

text \<open>
  Claim C7. For a directory at a normalised absolute path whose tree is well formed, the
  recursive scan returns; what it returns are exactly the regular files of the tree, at any
  depth, whose name ends in \<^verbatim>\<open>.babulus.ts\<close> or \<^verbatim>\<open>.babulus.xml\<close>, each under its full path: no
  other file, no directory and nothing twice, in ascending lexicographic order.
\<close>

theorem findDslFiles_exact_sorted_distinct:
  assumes "\<forall>s\<in>set dir. proper_seg s"
    and "lookup fs (abs_path dir) = Some (Dir es)"
    and "wf_dirents es"
  shows "\<exists>files. findDslFiles fs (abs_path dir) True = Inr files
           \<and> set files = abs_path ` {p \<in> set (tree_files True dir es). is_dsl_name (last p)}
           \<and> sorted files \<and> distinct files"
proof -
  have eq: "findDslFiles_entries (abs_path dir) True es
              = sort (map abs_path (matching_files True dir es))"
    using assms(3,1) by (rule findDslFiles_entries_eq)
  have d: "distinct (map abs_path (matching_files True dir es))"
    using assms(3,1) by (rule abs_path_matching_distinct)
  have "findDslFiles fs (abs_path dir) True = Inr (findDslFiles_entries (abs_path dir) True es)"
    using assms(2) by (simp add: findDslFiles_def readdirSync_def)
  moreover have "set (findDslFiles_entries (abs_path dir) True es)
      = abs_path ` {p \<in> set (tree_files True dir es). is_dsl_name (last p)}"
    using eq by (auto simp: matching_files_def)
  moreover have "sorted (findDslFiles_entries (abs_path dir) True es)" using eq by simp
  moreover have "distinct (findDslFiles_entries (abs_path dir) True es)" using eq d by simp
  ultimately show ?thesis by blast
qed

theorem findDslFiles_exact_sorted_distinct_witness:
  "proper_seg ''p'' \<and> proper_seg ''content''
   \<and> lookup example_fs (abs_path [''p'', ''content'']) = Some (Dir example_content)
   \<and> wf_dirents example_content
   \<and> findDslFiles example_fs ''/p/content'' True
        = Inr [''/p/content/a.babulus.xml'', ''/p/content/b.babulus.ts'',
               ''/p/content/sub/z.babulus.ts'']
   \<and> (\<exists>files. findDslFiles example_fs ''/p/content'' True = Inr files
          \<and> set files = abs_path ` {p \<in> set (tree_files True [''p'', ''content''] example_content).
                                      is_dsl_name (last p)}
          \<and> sorted files \<and> distinct files)"
proof -
  have h1: "\<forall>s\<in>set [''p'', ''content'']. proper_seg s" by (simp add: proper_seg_def)
  have h2: "lookup example_fs (abs_path [''p'', ''content'']) = Some (Dir example_content)"
    by code_simp
  have h3: "wf_dirents example_content" by (simp add: example_content_def proper_seg_def)
  have a: "abs_path [''p'', ''content''] = ''/p/content''" by (simp add: abs_path_def)
  have v: "findDslFiles example_fs ''/p/content'' True
        = Inr [''/p/content/a.babulus.xml'', ''/p/content/b.babulus.ts'',
               ''/p/content/sub/z.babulus.ts'']" by code_simp
  show ?thesis
    using h1 h2 h3 v findDslFiles_exact_sorted_distinct [OF h1 h2 h3] unfolding a by simp
qed

section \<open>The source resolver\<close>

lemma findDslFiles_entries_length:
  assumes "wf_dirents es" "\<forall>s\<in>set dir. proper_seg s"
  shows "length (findDslFiles_entries (abs_path dir) recursive es)
           = length (matching_files recursive dir es)"
  using findDslFiles_entries_eq [OF assms, of recursive] by simp

lemma join_content:
  "\<forall>s\<in>set dir. proper_seg s \<Longrightarrow> join [abs_path dir, ''content''] = abs_path (dir @ [''content''])"
  by (rule join_abs_name) (simp_all add: proper_seg_def)

text \<open>
  Claim C10. An explicit argument that resolves to an existing regular file is returned as
  the only element of the result, whatever its name: no test of the extension is made on
  this branch.
\<close>

theorem resolveDslPaths_explicit_file:
  assumes "arg \<noteq> []" and "lookup fs (resolve cwd arg) = Some (File c)"
  shows "resolveDslPaths fs (Some arg) cwd = Inr [resolve cwd arg]"
  using assms by (simp add: resolveDslPaths_def truthy_def existsSync_def statSync_isFile_def)

theorem resolveDslPaths_explicit_file_witness:
  "''video.mts'' \<noteq> [] \<and> lookup example_fs (resolve ''/p'' ''video.mts'') = Some (File ''v'')
   \<and> \<not> is_dsl_name ''video.mts''
   \<and> resolveDslPaths example_fs (Some ''video.mts'') ''/p'' = Inr [''/p/video.mts'']"
proof -
  have h1: "''video.mts'' \<noteq> []" by simp
  have h2: "lookup example_fs (resolve ''/p'' ''video.mts'') = Some (File ''v'')" by code_simp
  have r: "resolve ''/p'' ''video.mts'' = ''/p/video.mts''" by code_simp
  have n: "\<not> is_dsl_name ''video.mts''" by code_simp
  show ?thesis using h1 h2 n resolveDslPaths_explicit_file [OF h1 h2] unfolding r by simp
qed

text \<open>
  Claim C3 says that with no argument a \<^verbatim>\<open>content/\<close> directory holding several sources makes
  the resolver return all of them. In \<^verbatim>\<open>/p\<close> of the example, \<^verbatim>\<open>content/\<close> exists and the scan
  finds three sources, yet the resolver throws.
\<close>

theorem resolveDslPaths_content_ambiguous_counterexample:
  "existsSync example_fs (join [''/p'', ''content''])
   \<and> findDslFiles example_fs (join [''/p'', ''content'']) True
        = Inr [''/p/content/a.babulus.xml'', ''/p/content/b.babulus.ts'',
               ''/p/content/sub/z.babulus.ts'']
   \<and> resolveDslPaths example_fs None ''/p''
        = Inl (BabulusError
            ''Multiple .babulus.ts/.babulus.xml files found (3). Pass a specific file or directory path.'')"
  by code_simp

text \<open>
  Claim C3 as amended. With no argument (or an empty one), two or more matching files make
  the resolver fail with the \<^verbatim>\<open>Multiple ... files found (n)\<close> error, whether they were found
  by the recursive scan of an existing \<^verbatim>\<open>content/\<close> directory or, when there is no
  \<^verbatim>\<open>content/\<close>, by the flat scan of the working directory.
\<close>

theorem resolveDslPaths_ambiguous:
  assumes "\<forall>s\<in>set dir. proper_seg s" and "\<not> truthy dslArg" and "wf_dirents es"
  shows "(lookup fs (abs_path (dir @ [''content''])) = Some (Dir es)
            \<and> 2 \<le> length (matching_files True (dir @ [''content'']) es)
          \<longrightarrow> resolveDslPaths fs dslArg (abs_path dir)
                = Inl (BabulusError
                    (msg_multiple (length (matching_files True (dir @ [''content'']) es)))))
       \<and> (lookup fs (abs_path (dir @ [''content''])) = None
            \<and> lookup fs (abs_path dir) = Some (Dir es)
            \<and> 2 \<le> length (matching_files False dir es)
          \<longrightarrow> resolveDslPaths fs dslArg (abs_path dir)
                = Inl (BabulusError (msg_multiple (length (matching_files False dir es)))))"
proof (intro conjI impI)
  assume a: "lookup fs (abs_path (dir @ [''content''])) = Some (Dir es)
            \<and> 2 \<le> length (matching_files True (dir @ [''content'']) es)"
  have pc: "\<forall>s\<in>set (dir @ [''content'']). proper_seg s"
    using assms(1) by (simp add: proper_seg_def)
  have len: "length (findDslFiles_entries (abs_path (dir @ [''content''])) True es)
               = length (matching_files True (dir @ [''content'']) es)"
    using assms(3) pc by (rule findDslFiles_entries_length)
  have "discoverProjectDsls fs (abs_path dir)
          = Inr (findDslFiles_entries (abs_path (dir @ [''content''])) True es)"
    using a assms(1)
    by (simp add: discoverProjectDsls_def join_content existsSync_def findDslFiles_def
        readdirSync_def)
  moreover from a have "2 \<le> length (matching_files True (dir @ [''content'']) es)" by simp
  ultimately
  show "resolveDslPaths fs dslArg (abs_path dir)
          = Inl (BabulusError
              (msg_multiple (length (matching_files True (dir @ [''content'']) es))))"
    using len assms(2) by (auto simp: resolveDslPaths_def)
next
  assume a: "lookup fs (abs_path (dir @ [''content''])) = None
            \<and> lookup fs (abs_path dir) = Some (Dir es)
            \<and> 2 \<le> length (matching_files False dir es)"
  have len: "length (findDslFiles_entries (abs_path dir) False es)
               = length (matching_files False dir es)"
    using assms(3,1) by (rule findDslFiles_entries_length)
  have "discoverProjectDsls fs (abs_path dir)
          = Inr (findDslFiles_entries (abs_path dir) False es)"
    using a assms(1)
    by (simp add: discoverProjectDsls_def join_content existsSync_def findDslFiles_def
        readdirSync_def)
  moreover from a have "2 \<le> length (matching_files False dir es)" by simp
  ultimately
  show "resolveDslPaths fs dslArg (abs_path dir)
          = Inl (BabulusError (msg_multiple (length (matching_files False dir es))))"
    using len assms(2) by (auto simp: resolveDslPaths_def)
qed

theorem resolveDslPaths_ambiguous_witness:
  "proper_seg ''p'' \<and> proper_seg ''q'' \<and> \<not> truthy None
   \<and> wf_dirents example_content \<and> wf_dirents example_flat
   \<and> lookup example_fs (abs_path ([''p''] @ [''content''])) = Some (Dir example_content)
   \<and> 2 \<le> length (matching_files True ([''p''] @ [''content'']) example_content)
   \<and> resolveDslPaths example_fs None ''/p'' = Inl (BabulusError (msg_multiple 3))
   \<and> lookup example_flat_fs (abs_path ([''q''] @ [''content''])) = None
   \<and> lookup example_flat_fs (abs_path [''q'']) = Some (Dir example_flat)
   \<and> 2 \<le> length (matching_files False [''q''] example_flat)
   \<and> resolveDslPaths example_flat_fs None ''/q'' = Inl (BabulusError (msg_multiple 2))"
proof -
  have p: "\<forall>s\<in>set [''p'']. proper_seg s" and q: "\<forall>s\<in>set [''q'']. proper_seg s"
    by (simp_all add: proper_seg_def)
  have t: "\<not> truthy None" by (simp add: truthy_def)
  have w1: "wf_dirents example_content" by (simp add: example_content_def proper_seg_def)
  have w2: "wf_dirents example_flat" by (simp add: example_flat_def proper_seg_def)
  have l1: "lookup example_fs (abs_path ([''p''] @ [''content''])) = Some (Dir example_content)"
    by code_simp
  have n1: "length (matching_files True ([''p''] @ [''content'']) example_content) = 3"
    by code_simp
  have l2: "lookup example_flat_fs (abs_path ([''q''] @ [''content''])) = None" by code_simp
  have l3: "lookup example_flat_fs (abs_path [''q'']) = Some (Dir example_flat)" by code_simp
  have n2: "length (matching_files False [''q''] example_flat) = 2" by code_simp
  have a1: "abs_path [''p''] = ''/p''" and a2: "abs_path [''q''] = ''/q''"
    by (simp_all add: abs_path_def)
  from resolveDslPaths_ambiguous [OF p t w1, of example_fs] l1 n1
  have r1: "resolveDslPaths example_fs None ''/p'' = Inl (BabulusError (msg_multiple 3))"
    unfolding a1 by simp
  from resolveDslPaths_ambiguous [OF q t w2, of example_flat_fs] l2 l3 n2
  have r2: "resolveDslPaths example_flat_fs None ''/q'' = Inl (BabulusError (msg_multiple 2))"
    unfolding a2 by simp
  show ?thesis using p q t w1 w2 l1 n1 l2 l3 n2 r1 r2 by simp
qed

section \<open>Default artifact paths\<close>

lemma join_segs_append:
  "a \<noteq> [] \<Longrightarrow> b \<noteq> [] \<Longrightarrow> join_segs (a @ b) = join_segs a @ ''/'' @ join_segs b"
proof (induction a rule: join_segs.induct)
  case 1
  then show ?case by simp
next
  case (2 s)
  then show ?case by (cases b) simp_all
next
  case (3 s t ss)
  then show ?case by simp
qed









section \<open>The override guard of \<^verbatim>\<open>generate\<close>\<close>

text \<open>
  When some output option is a non-empty string and the runs do not hold exactly one
  composition, the action throws a \<^verbatim>\<open>BabulusError\<close> before \<^verbatim>\<open>generateComposition\<close> is called.
\<close>

lemma foldl_totalComps:
  "foldl (\<lambda>sum r. sum + length (run_compositions r)) n runs = n + total_compositions runs"
  by (induction runs arbitrary: n) simp_all

lemma generate_override_guard:
  assumes "resolveDslPaths fs dslArg cwd = Inr dslPaths"
    and "loadCompositions (loadVideoFile collab) dslPaths = Inr runs"
    and "any_override opts"
    and "total_compositions runs \<noteq> 1"
  shows "out_calls (generate_action collab fs cwd dslArg opts) = []
         \<and> out_result (generate_action collab fs cwd dslArg opts)
             = Inl (BabulusError (if watch opts \<and> length dslPaths \<noteq> 1 then msg_watch_overrides
                                  else msg_single_composition))"
  using assms by (simp add: generate_action_def Let_def foldl_totalComps)

text \<open>
  Claim C1 at \<^verbatim>\<open>--script-out ""\<close> with a source of two compositions. The guard tests the
  options for truthiness, so the empty override does not count, while
  \<^verbatim>\<open>defaultsForComposition\<close> tests \<^verbatim>\<open>typeof opts.scriptOut === "string"\<close> and uses it: the action
  finishes normally after two generation calls, both with the empty script path.
\<close>

theorem generate_empty_override_not_rejected:
  "scriptOut (default_options \<lparr> scriptOut := Some '''' \<rparr>) = Some ''''
   \<and> resolveDslPaths example_fs (Some ''content/a.babulus.xml'') ''/p''
        = Inr [''/p/content/a.babulus.xml'']
   \<and> loadCompositions (loadVideoFile example_collab) [''/p/content/a.babulus.xml'']
        = Inr [\<lparr> run_path = ''/p/content/a.babulus.xml'',
                 run_compositions = [\<lparr> comp_id = ''intro'' \<rparr>, \<lparr> comp_id = ''outro'' \<rparr>] \<rparr>]
   \<and> out_result (generate_action example_collab example_fs ''/p'' (Some ''content/a.babulus.xml'')
        (default_options \<lparr> scriptOut := Some '''' \<rparr>)) = Inr Finished
   \<and> map (\<lambda>r. (comp_id (req_composition r), req_scriptOut r))
        (out_calls (generate_action example_collab example_fs ''/p'' (Some ''content/a.babulus.xml'')
           (default_options \<lparr> scriptOut := Some '''' \<rparr>)))
      = [(''intro'', ''''), (''outro'', '''')]"
  by code_simp

text \<open>
  Claim C8 says a batch with \<^verbatim>\<open>--usage-out\<close> and a composition count other than one is
  rejected with the single-composition error. In watch mode with three sources the action
  is rejected earlier, with the error of the watch guard.
\<close>

theorem generate_watch_usage_out_counterexample:
  "usageOut (default_options \<lparr> usageOut := Some ''usage.json'', watch := True \<rparr>) = Some ''usage.json''
   \<and> resolveDslPaths example_fs (Some ''content'') ''/p''
        = Inr [''/p/content/a.babulus.xml'', ''/p/content/b.babulus.ts'',
               ''/p/content/sub/z.babulus.ts'']
   \<and> generate_action example_collab example_fs ''/p'' (Some ''content'')
        (default_options \<lparr> usageOut := Some ''usage.json'', watch := True \<rparr>)
      = \<lparr> out_env = None, out_calls = [],
          out_result = Inl (BabulusError
            ''When using --watch with multiple DSLs, omit explicit output overrides.'') \<rparr>
   \<and> ''When using --watch with multiple DSLs, omit explicit output overrides.''
        \<noteq> msg_single_composition"
  by code_simp

text \<open>
  Claim C8 as amended. A non-empty \<^verbatim>\<open>--usage-out\<close> value counts as an output override even
  when no script, timeline, audio or output-directory override is given: if the loaded runs
  do not hold exactly one composition, no generation call is made and the action throws a
  \<^verbatim>\<open>BabulusError\<close>, with the single-composition message unless watch mode with a number of
  sources other than one has already raised the message of the watch guard.
\<close>

theorem generate_usage_out_override:
  assumes "resolveDslPaths fs dslArg cwd = Inr dslPaths"
    and "loadCompositions (loadVideoFile collab) dslPaths = Inr runs"
    and "usageOut opts = Some u" and "u \<noteq> []"
    and "scriptOut opts = None" and "timelineOut opts = None"
    and "audioOut opts = None" and "outDir opts = None"
    and "total_compositions runs \<noteq> 1"
  shows "out_calls (generate_action collab fs cwd dslArg opts) = []
         \<and> out_result (generate_action collab fs cwd dslArg opts)
             = Inl (BabulusError (if watch opts \<and> length dslPaths \<noteq> 1 then msg_watch_overrides
                                  else msg_single_composition))"
proof -
  have "any_override opts" using assms(3,4) by (simp add: any_override_def truthy_def)
  with assms(1,2) show ?thesis using assms(9) by (rule generate_override_guard)
qed

theorem generate_usage_out_override_witness:
  "resolveDslPaths example_fs (Some ''content/a.babulus.xml'') ''/p''
        = Inr [''/p/content/a.babulus.xml'']
   \<and> loadCompositions (loadVideoFile example_collab) [''/p/content/a.babulus.xml'']
        = Inr [\<lparr> run_path = ''/p/content/a.babulus.xml'',
                 run_compositions = [\<lparr> comp_id = ''intro'' \<rparr>, \<lparr> comp_id = ''outro'' \<rparr>] \<rparr>]
   \<and> usageOut (default_options \<lparr> usageOut := Some ''usage.json'' \<rparr>) = Some ''usage.json''
   \<and> ''usage.json'' \<noteq> []
   \<and> scriptOut (default_options \<lparr> usageOut := Some ''usage.json'' \<rparr>) = None
   \<and> timelineOut (default_options \<lparr> usageOut := Some ''usage.json'' \<rparr>) = None
   \<and> audioOut (default_options \<lparr> usageOut := Some ''usage.json'' \<rparr>) = None
   \<and> outDir (default_options \<lparr> usageOut := Some ''usage.json'' \<rparr>) = None
   \<and> total_compositions
        [\<lparr> run_path = ''/p/content/a.babulus.xml'',
           run_compositions = [\<lparr> comp_id = ''intro'' \<rparr>, \<lparr> comp_id = ''outro'' \<rparr>] \<rparr>] = 2
   \<and> out_calls (generate_action example_collab example_fs ''/p'' (Some ''content/a.babulus.xml'')
        (default_options \<lparr> usageOut := Some ''usage.json'' \<rparr>)) = []
   \<and> out_result (generate_action example_collab example_fs ''/p'' (Some ''content/a.babulus.xml'')
        (default_options \<lparr> usageOut := Some ''usage.json'' \<rparr>))
      = Inl (BabulusError ''Output overrides require a single composition.'')"
proof -
  let ?opts = "default_options \<lparr> usageOut := Some ''usage.json'' \<rparr>"
  let ?runs = "[\<lparr> run_path = ''/p/content/a.babulus.xml'',
                 run_compositions = [\<lparr> comp_id = ''intro'' \<rparr>, \<lparr> comp_id = ''outro'' \<rparr>] \<rparr>]"
  have r: "resolveDslPaths example_fs (Some ''content/a.babulus.xml'') ''/p''
        = Inr [''/p/content/a.babulus.xml'']" by code_simp
  have l: "loadCompositions (loadVideoFile example_collab) [''/p/content/a.babulus.xml''] = Inr ?runs"
    by (simp add: example_collab_def)
  have o: "usageOut ?opts = Some ''usage.json''" "scriptOut ?opts = None" "timelineOut ?opts = None"
    "audioOut ?opts = None" "outDir ?opts = None" "\<not> watch ?opts"
    by (simp_all add: default_options_def)
  have n: "''usage.json'' \<noteq> []" by simp
  have t: "total_compositions ?runs = 2" by simp
  then have t': "total_compositions ?runs \<noteq> 1" by simp
  show ?thesis
    using generate_usage_out_override [OF r l o(1) n o(2) o(3) o(4) o(5) t'] r l o n t
    by (simp add: msg_single_composition_def)
qed

section \<open>The watch handler\<close>

lemma suffix_join_segs_last: "suffix s (join_segs (xs @ [s]))"
proof (cases "xs = []")
  case True
  then show ?thesis by simp
next
  case False
  then have "join_segs (xs @ [s]) = join_segs xs @ ''/'' @ s" by (simp add: join_segs_append)
  then show ?thesis by (simp add: suffix_def)
qed

lemma normalizeString_ends:
  assumes "proper_seg seg"
  shows "suffix seg (normalizeString (pre @ CHR ''/'' # seg) allow)"
proof -
  have "split_path (pre @ CHR ''/'' # seg) = split_path pre @ [seg]"
    using assms by (simp add: split_path_append split_path_no_slash proper_no_slash)
  then have "foldl (normalize_step allow) [] (split_path (pre @ CHR ''/'' # seg))
      = seg # foldl (normalize_step allow) [] (split_path pre)"
    using assms by (simp add: normalize_step_proper del: normalize_step.simps)
  then show ?thesis by (simp add: normalizeString_def suffix_join_segs_last)
qed

lemma path_normalize_ends:
  assumes "proper_seg seg"
  shows "suffix seg (path_normalize (pre @ CHR ''/'' # seg))"
proof -
  let ?path = "pre @ CHR ''/'' # seg"
  have s: "suffix seg (normalizeString ?path allow)" for allow
    using assms by (rule normalizeString_ends)
  have ne: "seg \<noteq> []" using assms by (simp add: proper_seg_def)
  have n: "normalizeString ?path allow \<noteq> []" for allow
    using s [of allow] ne by (auto simp: suffix_def)
  have l: "last ?path \<noteq> CHR ''/''" using ne last_proper [OF assms] by simp
  have "path_normalize ?path = (if hd ?path = CHR ''/'' then ''/'' @ normalizeString ?path False
      else normalizeString ?path True)"
    using n l by (simp add: path_normalize_def Let_def)
  then show ?thesis using s by (simp add: suffix_def) (metis append.assoc append_Cons)
qed

lemma join3_ends:
  assumes "proper_seg seg" "a \<noteq> []"
  shows "suffix seg (join [root, a, seg])"
proof -
  have ne: "seg \<noteq> []" using assms(1) by (simp add: proper_seg_def)
  have "join [root, a, seg] = path_normalize ((if root = [] then a else root @ ''/'' @ a) @ CHR ''/'' # seg)"
    using assms(2) ne by (simp add: join_def)
  then show ?thesis using path_normalize_ends [OF assms(1)] by simp
qed

lemma findConfigPathForWatch_yml:
  assumes "findConfigPathForWatch findRoot fs projDir dslPath = Some c"
  shows "endsWith c ''.yml''"
proof -
  have p: "proper_seg ''config.yml''" by (simp add: proper_seg_def)
  have y: "suffix ''.yml'' ''config.yml''" by (simp add: suffix_def)
  have "suffix ''config.yml'' c"
    using assms join3_ends [OF p, of "''.videoml''"] join3_ends [OF p, of "''.babulus''"]
    by (auto simp: findConfigPathForWatch_def Let_def split: sum.splits if_splits option.splits)
  with y show ?thesis unfolding endsWith_def by (rule suffix_order.trans)
qed

lemma generate_watching_session:
  assumes "out_result (generate_action collab fs cwd dslArg opts) = Inr (Watching ses)"
  shows "ses_cwd ses = cwd
         \<and> resolveDslPaths fs dslArg cwd = Inr (ses_dslPaths ses)
         \<and> loadCompositions (loadVideoFile collab) (ses_dslPaths ses) = Inr (ses_runs ses)
         \<and> ses_dslDirs ses = uniq (map dirname (ses_dslPaths ses))
         \<and> ses_configPath ses
             = findConfigPathForWatch (findProjectRoot collab) fs (ses_projectDir ses)
                 (first (ses_dslPaths ses))"
  using assms unfolding generate_action_def Let_def
  by (auto split: sum.splits if_splits prod.splits option.splits)

lemma resolve_nonempty: "resolve cwd arg \<noteq> []"
  by (simp add: resolve_def Let_def)

lemma find_member: "a \<in> set xs \<Longrightarrow> find (\<lambda>p. p = a) xs = Some a"
  by (induction xs) auto

lemma find_not_member: "a \<notin> set xs \<Longrightarrow> find (\<lambda>p. p = a) xs = None"
  by (induction xs) auto

lemma yml_not_ts_xml:
  assumes "endsWith p ''.yml'' \<or> endsWith p ''.yaml''"
  shows "\<not> endsWith p ''.ts'' \<and> \<not> endsWith p ''.xml''"
proof -
  have "\<not> (suffix a p \<and> suffix b p)" if "\<not> suffix a b" "\<not> suffix b a" for a b :: string
    using that suffix_same_cases by blast
  moreover have "\<not> suffix ''.yml'' ''.ts''" "\<not> suffix ''.ts'' ''.yml''"
    "\<not> suffix ''.yml'' ''.xml''" "\<not> suffix ''.xml'' ''.yml''"
    "\<not> suffix ''.yaml'' ''.ts''" "\<not> suffix ''.ts'' ''.yaml''"
    "\<not> suffix ''.yaml'' ''.xml''" "\<not> suffix ''.xml'' ''.yaml''"
    by (simp_all add: suffix_to_prefix)
  ultimately show ?thesis using assms unfolding endsWith_def by blast
qed

lemma runOnce_scope:
  "runOnce collab projDir opts config runs (Some [p])
     = runOnce collab projDir opts config (filter (\<lambda>r. run_path r = p) runs) None"
  by (induction runs) (simp_all split: prod.splits option.splits)

text \<open>
  Claim C5 says a change to a tracked source path triggers a rebuild of that source. The
  extension filter comes first: \<^verbatim>\<open>generate --watch video.mts\<close> tracks \<^verbatim>\<open>/p/video.mts\<close>, and a
  change to that very file triggers nothing.
\<close>

theorem watch_tracked_source_filtered_counterexample:
  "out_result (generate_action example_collab example_fs ''/p'' (Some ''video.mts'')
       (default_options \<lparr> watch := True \<rparr>)) = Inr (Watching (example_watch ''video.mts''))
   \<and> ses_dslPaths (example_watch ''video.mts'') = [''/p/video.mts'']
   \<and> resolve ''/p'' ''/p/video.mts'' = ''/p/video.mts''
   \<and> watch_handler (example_watch ''video.mts'') ''/p/video.mts'' = NoRebuild"
  by code_simp

text \<open>
  Claim C5 as amended. In every watch session the \<^verbatim>\<open>generate\<close> action sets up: a change
  whose absolute path is the resolved config path makes the handler call \<^verbatim>\<open>runOnce()\<close>, the
  rebuild of every run; a change whose absolute path is a tracked source path, ends in
  \<^verbatim>\<open>.ts\<close>, \<^verbatim>\<open>.xml\<close>, \<^verbatim>\<open>.yml\<close> or \<^verbatim>\<open>.yaml\<close> and is not the config path makes it call
  \<^verbatim>\<open>runOnce\<close> with that one path, which runs exactly the runs of that source; a change to
  a path with none of the four extensions triggers no rebuild.
\<close>

theorem watch_handler_classification:
  assumes "out_result (generate_action collab fs cwd dslArg opts) = Inr (Watching ses)"
  shows "(ses_configPath ses = Some (resolve cwd changedPath)
            \<longrightarrow> (\<exists>msgs. watch_handler ses changedPath = Rebuild msgs None))
       \<and> (resolve cwd changedPath \<in> set (ses_dslPaths ses)
            \<and> (endsWith (resolve cwd changedPath) ''.ts'' \<or> endsWith (resolve cwd changedPath) ''.xml''
                \<or> endsWith (resolve cwd changedPath) ''.yml''
                \<or> endsWith (resolve cwd changedPath) ''.yaml'')
            \<and> ses_configPath ses \<noteq> Some (resolve cwd changedPath)
            \<longrightarrow> (\<exists>msgs. watch_handler ses changedPath
                          = Rebuild msgs (Some [resolve cwd changedPath]))
                \<and> runOnce collab (ses_projectDir ses) (ses_opts ses) (ses_config ses) (ses_runs ses)
                      (Some [resolve cwd changedPath])
                    = runOnce collab (ses_projectDir ses) (ses_opts ses) (ses_config ses)
                        (filter (\<lambda>r. run_path r = resolve cwd changedPath) (ses_runs ses)) None)
       \<and> (\<not> endsWith (resolve cwd changedPath) ''.ts'' \<and> \<not> endsWith (resolve cwd changedPath) ''.xml''
            \<and> \<not> endsWith (resolve cwd changedPath) ''.yml''
            \<and> \<not> endsWith (resolve cwd changedPath) ''.yaml''
            \<longrightarrow> watch_handler ses changedPath = NoRebuild)"
proof -
  let ?abs = "resolve cwd changedPath"
  from generate_watching_session [OF assms]
  have c: "ses_cwd ses = cwd"
    and cp: "ses_configPath ses
       = findConfigPathForWatch (findProjectRoot collab) fs (ses_projectDir ses)
           (first (ses_dslPaths ses))"
    by simp_all
  have ne: "?abs \<noteq> []" by (rule resolve_nonempty)
  have config: "\<exists>msgs. watch_handler ses changedPath = Rebuild msgs None"
    if "ses_configPath ses = Some ?abs"
  proof -
    from that cp have "endsWith ?abs ''.yml''" by (metis findConfigPathForWatch_yml)
    with that ne c show ?thesis by (simp add: watch_handler_def Let_def truthy_def)
  qed
  have source: "\<exists>msgs. watch_handler ses changedPath = Rebuild msgs (Some [?abs])"
    if m: "?abs \<in> set (ses_dslPaths ses)"
      and e: "endsWith ?abs ''.ts'' \<or> endsWith ?abs ''.xml'' \<or> endsWith ?abs ''.yml''
              \<or> endsWith ?abs ''.yaml''"
      and n: "ses_configPath ses \<noteq> Some ?abs"
  proof -
    from m have "find (\<lambda>p. p = ?abs) (ses_dslPaths ses) = Some ?abs" by (rule find_member)
    with e n ne c show ?thesis by (auto simp: watch_handler_def Let_def truthy_def)
  qed
  have other: "watch_handler ses changedPath = NoRebuild"
    if "\<not> endsWith ?abs ''.ts'' \<and> \<not> endsWith ?abs ''.xml'' \<and> \<not> endsWith ?abs ''.yml''
        \<and> \<not> endsWith ?abs ''.yaml''"
    using that c by (simp add: watch_handler_def Let_def)
  have scope: "runOnce collab (ses_projectDir ses) (ses_opts ses) (ses_config ses) (ses_runs ses)
        (Some [?abs])
      = runOnce collab (ses_projectDir ses) (ses_opts ses) (ses_config ses)
          (filter (\<lambda>r. run_path r = ?abs) (ses_runs ses)) None"
    by (rule runOnce_scope)
  from config source other scope show ?thesis by blast
qed

theorem watch_handler_classification_witness:
  "out_result (generate_action example_collab example_fs ''/p'' (Some ''content'')
       (default_options \<lparr> watch := True \<rparr>)) = Inr (Watching (example_watch ''content''))
   \<and> ses_configPath (example_watch ''content'') = Some (resolve ''/p'' ''/p/.videoml/config.yml'')
   \<and> (\<exists>msgs. watch_handler (example_watch ''content'') ''/p/.videoml/config.yml'' = Rebuild msgs None)
   \<and> resolve ''/p'' ''content/b.babulus.ts'' \<in> set (ses_dslPaths (example_watch ''content''))
   \<and> endsWith (resolve ''/p'' ''content/b.babulus.ts'') ''.ts''
   \<and> (\<exists>msgs. watch_handler (example_watch ''content'') ''content/b.babulus.ts''
                = Rebuild msgs (Some [''/p/content/b.babulus.ts'']))
   \<and> \<not> endsWith (resolve ''/p'' ''content/logo.png'') ''.ts''
   \<and> \<not> endsWith (resolve ''/p'' ''content/logo.png'') ''.xml''
   \<and> \<not> endsWith (resolve ''/p'' ''content/logo.png'') ''.yml''
   \<and> \<not> endsWith (resolve ''/p'' ''content/logo.png'') ''.yaml''
   \<and> watch_handler (example_watch ''content'') ''content/logo.png'' = NoRebuild"
proof -
  let ?ses = "example_watch ''content''"
  have g: "out_result (generate_action example_collab example_fs ''/p'' (Some ''content'')
       (default_options \<lparr> watch := True \<rparr>)) = Inr (Watching ?ses)" by code_simp
  have cp: "ses_configPath ?ses = Some (resolve ''/p'' ''/p/.videoml/config.yml'')" by code_simp
  have m: "resolve ''/p'' ''content/b.babulus.ts'' \<in> set (ses_dslPaths ?ses)" by code_simp
  have e: "endsWith (resolve ''/p'' ''content/b.babulus.ts'') ''.ts''" by code_simp
  have n: "ses_configPath ?ses \<noteq> Some (resolve ''/p'' ''content/b.babulus.ts'')" by code_simp
  have r: "resolve ''/p'' ''content/b.babulus.ts'' = ''/p/content/b.babulus.ts''" by code_simp
  have x: "\<not> endsWith (resolve ''/p'' ''content/logo.png'') ''.ts''"
    "\<not> endsWith (resolve ''/p'' ''content/logo.png'') ''.xml''"
    "\<not> endsWith (resolve ''/p'' ''content/logo.png'') ''.yml''"
    "\<not> endsWith (resolve ''/p'' ''content/logo.png'') ''.yaml''" by code_simp+
  have 1: "\<exists>msgs. watch_handler ?ses ''/p/.videoml/config.yml'' = Rebuild msgs None"
    using watch_handler_classification [OF g, of "''/p/.videoml/config.yml''"] cp by blast
  have 2: "\<exists>msgs. watch_handler ?ses ''content/b.babulus.ts''
                = Rebuild msgs (Some [''/p/content/b.babulus.ts''])"
    using watch_handler_classification [OF g, of "''content/b.babulus.ts''"] m e n
    unfolding r by blast
  have 3: "watch_handler ?ses ''content/logo.png'' = NoRebuild"
    using watch_handler_classification [OF g, of "''content/logo.png''"] x by blast
  show ?thesis using g cp m e x 1 2 3 unfolding r by simp
qed

text \<open>
  Claim C9 says a \<^verbatim>\<open>.yml\<close> change under a watched directory that is not the config path
  triggers nothing. \<^verbatim>\<open>generate --watch scene.yml\<close> tracks \<^verbatim>\<open>/p/scene.yml\<close>; a change to it
  passes the filter, is not the config path \<^verbatim>\<open>/p/.videoml/config.yml\<close>, and matches the
  source branch.
\<close>

theorem watch_yaml_source_rebuilds_counterexample:
  "out_result (generate_action example_collab example_fs ''/p'' (Some ''scene.yml'')
       (default_options \<lparr> watch := True \<rparr>)) = Inr (Watching (example_watch ''scene.yml''))
   \<and> ses_watchDirs (example_watch ''scene.yml'') = [''/p'', ''/p/.videoml'']
   \<and> ses_configPath (example_watch ''scene.yml'') = Some ''/p/.videoml/config.yml''
   \<and> resolve ''/p'' ''/p/scene.yml'' = ''/p/scene.yml''
   \<and> endsWith ''/p/scene.yml'' ''.yml''
   \<and> startsWith ''/p/scene.yml'' (''/p'' @ sep)
   \<and> watch_handler (example_watch ''scene.yml'') ''/p/scene.yml''
        = Rebuild [newline @ ''CHANGE DETECTED (DSL): scene.yml''] (Some [''/p/scene.yml''])"
  by code_simp

text \<open>
  Claim C9 as amended. A change whose absolute path ends in \<^verbatim>\<open>.yml\<close> or \<^verbatim>\<open>.yaml\<close>, is not
  the resolved config path and is not one of the tracked source paths triggers no rebuild,
  in every session and wherever the path lies.
\<close>

theorem watch_handler_yaml_ignored:
  assumes "endsWith (resolve (ses_cwd ses) changedPath) ''.yml''
           \<or> endsWith (resolve (ses_cwd ses) changedPath) ''.yaml''"
    and "ses_configPath ses \<noteq> Some (resolve (ses_cwd ses) changedPath)"
    and "resolve (ses_cwd ses) changedPath \<notin> set (ses_dslPaths ses)"
  shows "watch_handler ses changedPath = NoRebuild"
proof -
  let ?abs = "resolve (ses_cwd ses) changedPath"
  have "\<not> endsWith ?abs ''.ts'' \<and> \<not> endsWith ?abs ''.xml''" using assms(1) by (rule yml_not_ts_xml)
  moreover have "find (\<lambda>p. p = ?abs) (ses_dslPaths ses) = None"
    using assms(3) by (rule find_not_member)
  ultimately show ?thesis using assms(1,2)
    by (auto simp: watch_handler_def Let_def truthy_def)
qed

theorem watch_handler_yaml_ignored_witness:
  "endsWith (resolve (ses_cwd (example_watch ''content'')) ''/p/content/palette.yaml'') ''.yaml''
   \<and> ses_configPath (example_watch ''content'')
        \<noteq> Some (resolve (ses_cwd (example_watch ''content'')) ''/p/content/palette.yaml'')
   \<and> resolve (ses_cwd (example_watch ''content'')) ''/p/content/palette.yaml''
        \<notin> set (ses_dslPaths (example_watch ''content''))
   \<and> list_ex (\<lambda>dir. startsWith ''/p/content/palette.yaml'' (dir @ sep))
        (ses_watchDirs (example_watch ''content''))
   \<and> watch_handler (example_watch ''content'') ''/p/content/palette.yaml'' = NoRebuild"
proof -
  let ?ses = "example_watch ''content''"
  have e: "endsWith (resolve (ses_cwd ?ses) ''/p/content/palette.yaml'') ''.yml''
           \<or> endsWith (resolve (ses_cwd ?ses) ''/p/content/palette.yaml'') ''.yaml''" by code_simp
  have e': "endsWith (resolve (ses_cwd ?ses) ''/p/content/palette.yaml'') ''.yaml''" by code_simp
  have n: "ses_configPath ?ses \<noteq> Some (resolve (ses_cwd ?ses) ''/p/content/palette.yaml'')"
    by code_simp
  have m: "resolve (ses_cwd ?ses) ''/p/content/palette.yaml'' \<notin> set (ses_dslPaths ?ses)"
    by code_simp
  have w: "list_ex (\<lambda>dir. startsWith ''/p/content/palette.yaml'' (dir @ sep)) (ses_watchDirs ?ses)"
    by code_simp
  show ?thesis using watch_handler_yaml_ignored [OF e n m] e' n m w by simp
qed

section \<open>Rebuilds in flight\<close>

text \<open>
  Claim C2 says a rebuild triggered while another is in flight waits for it. Two changes
  to \<^verbatim>\<open>/p/content/b.babulus.ts\<close> with nothing settled in between: after the first, one
  rebuild is in flight with two calls to make; after the second, two rebuilds are in flight
  and \<^verbatim>\<open>generateComposition\<close> has been started twice for the same composition and the same
  script path.
\<close>

theorem watch_overlapping_rebuilds_counterexample:
  "out_result (generate_action example_collab example_fs ''/p'' (Some ''content'')
       (default_options \<lparr> watch := True \<rparr>)) = Inr (Watching (example_watch ''content''))
   \<and> map (\<lambda>r. map (\<lambda>q. (req_dslPath q, comp_id (req_composition q))) (fst r))
        (w_inflight (watch_run example_collab (example_watch ''content'')
           [Change ''/p/content/b.babulus.ts'']))
      = [[(''/p/content/b.babulus.ts'', ''intro''), (''/p/content/b.babulus.ts'', ''outro'')]]
   \<and> length (w_inflight (watch_run example_collab (example_watch ''content'')
        [Change ''/p/content/b.babulus.ts'', Change ''/p/content/b.babulus.ts''])) = 2
   \<and> map (\<lambda>q. (req_dslPath q, comp_id (req_composition q), req_scriptOut q))
        (w_started (watch_run example_collab (example_watch ''content'')
           [Change ''/p/content/b.babulus.ts'', Change ''/p/content/b.babulus.ts'']))
      = [(''/p/content/b.babulus.ts'', ''intro'', ''/p/src/videos/intro/intro.script.json''),
         (''/p/content/b.babulus.ts'', ''intro'', ''/p/src/videos/intro/intro.script.json'')]
   \<and> w_exit (watch_run example_collab (example_watch ''content'')
        [Change ''/p/content/b.babulus.ts'', Change ''/p/content/b.babulus.ts'']) = None"
  by code_simp

text \<open>
  Claim C2 as amended. While the process lives, a change event whose rebuild has at least
  one composition to generate starts that rebuild when the event is handled: the rebuild
  joins those in flight, however many there are, and its first \<^verbatim>\<open>generateComposition\<close> call
  is made at once. Nothing is queued or coalesced.
\<close>

theorem watch_change_starts_at_once:
  assumes "w_exit st = None"
    and "watch_handler ses changedPath = Rebuild msgs scope"
    and "runOnce collab (ses_projectDir ses) (ses_opts ses) (ses_config ses) (ses_runs ses) scope
           = (req # calls, res)"
  shows "w_inflight (watch_step collab ses st (Change changedPath))
           = w_inflight st @ [(req # calls, res)]
         \<and> w_started (watch_step collab ses st (Change changedPath)) = w_started st @ [req]"
  using assms by (simp add: watch_step_def)

theorem watch_change_starts_at_once_witness:
  "w_exit (watch_run example_collab (example_watch ''content'') [Change ''/p/content/b.babulus.ts''])
     = None
   \<and> length (w_inflight (watch_run example_collab (example_watch ''content'')
        [Change ''/p/content/b.babulus.ts''])) = 1
   \<and> watch_handler (example_watch ''content'') ''/p/.videoml/config.yml''
        = Rebuild [newline @ ''CHANGE DETECTED (Config): .videoml/config.yml'',
                   ''Regenerating all compositions...''] None
   \<and> length (w_inflight (watch_step example_collab (example_watch ''content'')
        (watch_run example_collab (example_watch ''content'') [Change ''/p/content/b.babulus.ts''])
        (Change ''/p/.videoml/config.yml''))) = 2
   \<and> length (w_started (watch_step example_collab (example_watch ''content'')
        (watch_run example_collab (example_watch ''content'') [Change ''/p/content/b.babulus.ts''])
        (Change ''/p/.videoml/config.yml''))) = 2"
proof -
  let ?ses = "example_watch ''content''"
  let ?st = "watch_run example_collab ?ses [Change ''/p/content/b.babulus.ts'']"
  let ?run = "runOnce example_collab (ses_projectDir ?ses) (ses_opts ?ses) (ses_config ?ses)
                (ses_runs ?ses) None"
  have e: "w_exit ?st = None" by code_simp
  have l: "length (w_inflight ?st) = 1" "length (w_started ?st) = 1" by code_simp+
  have h: "watch_handler ?ses ''/p/.videoml/config.yml''
        = Rebuild [newline @ ''CHANGE DETECTED (Config): .videoml/config.yml'',
                   ''Regenerating all compositions...''] None" by code_simp
  have r: "?run = (hd (fst ?run) # tl (fst ?run), snd ?run)" by code_simp
  from watch_change_starts_at_once [OF e h r]
  have "length (w_inflight (watch_step example_collab ?ses ?st (Change ''/p/.videoml/config.yml'')))
          = length (w_inflight ?st @ [(hd (fst ?run) # tl (fst ?run), snd ?run)])"
    and "length (w_started (watch_step example_collab ?ses ?st (Change ''/p/.videoml/config.yml'')))
          = length (w_started ?st @ [hd (fst ?run)])"
    by (simp_all only:)
  then show ?thesis using e l h by simp
qed

section \<open>The \<^verbatim>\<open>render\<close> command with a missing script\<close>

text \<open>
  Claim C4 says a missing script makes \<^verbatim>\<open>render\<close> fail with a validation error, exit code
  2 and no stack trace. The action reads the file without testing for it, so the error is
  the \<^verbatim>\<open>ENOENT\<close> of \<^verbatim>\<open>readFileSync\<close>, which is no \<^verbatim>\<open>BabulusError\<close>: the top-level handler
  prints the error object and exits with code 1.
\<close>

theorem render_missing_script_exit_counterexample:
  "lookup example_fs (resolve ''/p'' (r_script example_render_options)) = None
   \<and> render_command example_render_env example_fs ''/p'' example_render_options
      = ([], Some (ErrorObject
                     (OtherError (''ENOENT: no such file or directory, open ''
                        @ quoted ''/p/out/missing.script.json'')),
                   1))
   \<and> snd (the (snd (render_command example_render_env example_fs ''/p'' example_render_options)))
        \<noteq> 2"
  by code_simp

text \<open>
  Claim C4 as amended. When nothing exists at the resolved script path, \<^verbatim>\<open>render\<close> fails
  before \<^verbatim>\<open>renderVideoFromScript\<close> is called: the error is the one \<^verbatim>\<open>readFileSync\<close> throws, the
  top-level handler prints it as an error object and the exit code is 1.
\<close>

theorem render_missing_script:
  assumes "lookup fs (resolve cwd (r_script opts)) = None"
  shows "render_command renv fs cwd opts
           = ([], Some (ErrorObject (missing_error fs ''open'' (resolve cwd (r_script opts))), 1))"
  using assms
  by (simp add: render_command_def render_action_def Let_def read_json_def readFileSync_def
      parseAsync_catch_def missing_error_def)

theorem render_missing_script_witness:
  "lookup example_fs (resolve ''/p'' (r_script example_render_options)) = None
   \<and> render_command example_render_env example_fs ''/p'' example_render_options
      = ([], Some (ErrorObject
                     (OtherError (''ENOENT: no such file or directory, open ''
                        @ quoted ''/p/out/missing.script.json'')),
                   1))
   \<and> fst (render_command example_render_env example_fs ''/p''
             (example_render_options \<lparr> r_script := ''scene.yml'' \<rparr>)) \<noteq> []"
proof -
  have h: "lookup example_fs (resolve ''/p'' (r_script example_render_options)) = None"
    by code_simp
  have m: "missing_error example_fs ''open'' (resolve ''/p'' (r_script example_render_options))
      = OtherError (''ENOENT: no such file or directory, open ''
                        @ quoted ''/p/out/missing.script.json'')" by code_simp
  have c: "fst (render_command example_render_env example_fs ''/p''
             (example_render_options \<lparr> r_script := ''scene.yml'' \<rparr>)) \<noteq> []" by code_simp
  show ?thesis using render_missing_script [OF h, of example_render_env] h c unfolding m by simp
qed

end
